theory Spec2Isabelle
  imports Main
begin

section \<open>Runes and the editor state\<close>

text \<open>
  A Go \<open>rune\<close> is a 32-bit code point and a Go \<open>int\<close> a 64-bit integer; no operation
  below comes near either bound, so both are unbounded integers here. A byte is a natural
  number below 256.
\<close>

type_synonym rune = int
type_synonym byte = nat

text \<open>
  \<open>unicode.IsSpace\<close> of the Go standard library: the Latin-1 white space characters and
  the members of the Unicode property White_Space beyond Latin-1.
\<close>

definition IsSpace :: "rune \<Rightarrow> bool" where
  "IsSpace r \<longleftrightarrow>
     r = 0x09 \<or> r = 0x0A \<or> r = 0x0B \<or> r = 0x0C \<or> r = 0x0D \<or> r = 0x20 \<or> r = 0x85 \<or> r = 0xA0
     \<or> r = 0x1680 \<or> (0x2000 \<le> r \<and> r \<le> 0x200A) \<or> r = 0x2028 \<or> r = 0x2029
     \<or> r = 0x202F \<or> r = 0x205F \<or> r = 0x3000"

text \<open>
  The \<open>Mode\<close> "enum" of the source is an \<open>int\<close> with four named constants
  (\<open>iota\<close> numbering); any other integer is a \<open>Mode\<close> value as well.
\<close>

type_synonym Mode = int

definition modeBlank :: Mode where "modeBlank = 0"
definition modeGray4 :: Mode where "modeGray4 = 1"
definition modeRGB :: Mode where "modeRGB = 2"
definition modeRGBA :: Mode where "modeRGBA = 3"

text \<open>
  The cursor and scroll position. The struct itself is declared outside the given sources;
  these are the fields the editor reads and writes.
\<close>

record Position =
  sx :: int
  sy :: int
  offset :: int
  savedX :: int

text \<open>
  The \<open>Editor\<close> struct. \<open>lines\<close> is the Go \<open>map[int][]rune\<close>; an entry holding the
  \<open>nil\<close> slice and one holding an empty slice are both \<open>Some []\<close>, since the code only
  ever takes \<open>len\<close> of, ranges over, or appends to such a slice. The colour fields
  (\<open>fg\<close>, \<open>bg\<close>, \<open>searchFg\<close>, \<open>gitColor\<close>) only feed the canvas and are left out.
  Every editor is built by \<open>NewEditor\<close> and reset by \<open>Clear\<close>, which both allocate the
  map, so the \<open>e.lines == nil\<close> guards of the source never fire and have no branch here.
\<close>

record Editor =
  lines :: "int \<rightharpoonup> rune list"
  changed :: bool
  drawMode :: bool
  pos :: Position
  redraw :: bool
  redrawCursor :: bool
  wordWrapAt :: int
  mode :: Mode

text \<open>
  What a call can end in: it returns, it panics (an index or a slice bound out of range,
  or the \<open>panic(err)\<close> of editor.go on an inconsistent map), or it never returns.
\<close>

datatype panic = IndexOutOfRange | SliceBoundsOutOfRange | LineShouldNotBeThere int
  | MakeSliceOutOfRange

datatype 'a result = Returns 'a | Panics panic | Diverges

definition and_then :: "'a result \<Rightarrow> ('a \<Rightarrow> 'b result) \<Rightarrow> 'b result" where
  "and_then r f = (case r of Returns a \<Rightarrow> f a | Panics p \<Rightarrow> Panics p | Diverges \<Rightarrow> Diverges)"

section \<open>Go strings: UTF-8\<close>

text \<open>
  A Go string is a sequence of bytes. \<open>strings.Builder.WriteRune\<close> and the conversion
  \<open>string(runes)\<close> write each rune in UTF-8, and a rune that is no Unicode scalar value
  (negative, a surrogate, above \<open>U+10FFFF\<close>) as \<open>U+FFFD\<close>. \<open>for _, r := range s\<close> and
  \<open>[]rune(s)\<close> decode; a byte that starts no valid encoding is read as \<open>U+FFFD\<close> of
  width 1. Both follow \<open>unicode/utf8\<close> of the Go standard library.
\<close>

definition RuneError :: rune where "RuneError = 0xFFFD"

definition EncodeRune :: "rune \<Rightarrow> byte list" where
  "EncodeRune r =
     (if 0 \<le> r \<and> r \<le> 0x7F then [nat r]
      else if 0 \<le> r \<and> r \<le> 0x7FF then [0xC0 + nat (r div 64), 0x80 + nat (r mod 64)]
      else if r < 0 \<or> r > 0x10FFFF \<or> (0xD800 \<le> r \<and> r \<le> 0xDFFF) then [0xEF, 0xBF, 0xBD]
      else if r \<le> 0xFFFF then
        [0xE0 + nat (r div 4096), 0x80 + nat (r div 64 mod 64), 0x80 + nat (r mod 64)]
      else
        [0xF0 + nat (r div 262144), 0x80 + nat (r div 4096 mod 64),
         0x80 + nat (r div 64 mod 64), 0x80 + nat (r mod 64)])"

text \<open>\<open>utf8.ValidRune\<close>: the Unicode scalar values.\<close>

definition ValidRune :: "rune \<Rightarrow> bool" where
  "ValidRune r \<longleftrightarrow> 0 \<le> r \<and> r \<le> 0x10FFFF \<and> \<not> (0xD800 \<le> r \<and> r \<le> 0xDFFF)"

text \<open>\<open>string(runes)\<close>.\<close>

definition string_of_runes :: "rune list \<Rightarrow> byte list" where
  "string_of_runes rs = concat (map EncodeRune rs)"

text \<open>A continuation byte.\<close>

definition cont :: "byte \<Rightarrow> bool" where
  "cont b \<longleftrightarrow> 0x80 \<le> b \<and> b \<le> 0xBF"

text \<open>
  \<open>utf8.DecodeRune\<close>: the rune at the start of the bytes and its width. The second byte
  of a three or four byte encoding has a narrower range after \<open>E0\<close>, \<open>ED\<close>, \<open>F0\<close> and
  \<open>F4\<close>, which rules out overlong encodings, surrogates and values above \<open>U+10FFFF\<close>.
\<close>

fun DecodeRune :: "byte list \<Rightarrow> rune \<times> nat" where
  "DecodeRune [] = (RuneError, 0)"
| "DecodeRune (b0 # bs) =
     (if b0 < 0x80 then (int b0, 1)
      else if b0 < 0xC2 \<or> 0xF4 < b0 then (RuneError, 1)
      else if b0 < 0xE0 then
        (case bs of
           b1 # _ \<Rightarrow> if cont b1 then (int (b0 - 0xC0) * 64 + int (b1 - 0x80), 2) else (RuneError, 1)
         | _ \<Rightarrow> (RuneError, 1))
      else if b0 < 0xF0 then
        (case bs of
           b1 # b2 # _ \<Rightarrow>
             if (if b0 = 0xE0 then 0xA0 else 0x80) \<le> b1 \<and> b1 \<le> (if b0 = 0xED then 0x9F else 0xBF)
                \<and> cont b2
             then (int (b0 - 0xE0) * 4096 + int (b1 - 0x80) * 64 + int (b2 - 0x80), 3)
             else (RuneError, 1)
         | _ \<Rightarrow> (RuneError, 1))
      else
        (case bs of
           b1 # b2 # b3 # _ \<Rightarrow>
             if (if b0 = 0xF0 then 0x90 else 0x80) \<le> b1 \<and> b1 \<le> (if b0 = 0xF4 then 0x8F else 0xBF)
                \<and> cont b2 \<and> cont b3
             then (int (b0 - 0xF0) * 262144 + int (b1 - 0x80) * 4096 + int (b2 - 0x80) * 64
                     + int (b3 - 0x80), 4)
             else (RuneError, 1)
         | _ \<Rightarrow> (RuneError, 1)))"

text \<open>\<open>[]rune(s)\<close>, and the runes \<open>for _, r := range s\<close> visits.\<close>

function runes_of_string :: "byte list \<Rightarrow> rune list" where
  "runes_of_string [] = []"
| "runes_of_string (b # bs) =
     fst (DecodeRune (b # bs)) # runes_of_string (drop (snd (DecodeRune (b # bs))) (b # bs))"
  by pat_completeness auto
termination
proof (relation "measure length")
  show "wf (measure length)" by simp
next
  fix b :: byte and bs :: "byte list"
  have "0 < snd (DecodeRune (b # bs))"
    by (auto split: list.splits)
  then show "(drop (snd (DecodeRune (b # bs))) (b # bs), b # bs) \<in> measure length"
    by simp
qed

declare runes_of_string.simps [simp del]

text \<open>
  \<open>strings.Split(s, sep)\<close> and \<open>bytes.Split(s, sep)\<close> for a separator of one byte: the
  pieces between the separators; one (empty) piece for the empty string.
\<close>

fun Split :: "byte \<Rightarrow> byte list \<Rightarrow> byte list list" where
  "Split sep [] = [[]]"
| "Split sep (b # bs) =
     (if b = sep then [] # Split sep bs
      else (b # hd (Split sep bs)) # tl (Split sep bs))"

text \<open>\<open>strings.HasSuffix\<close> on file names, which are \<open>string\<close>s here.\<close>

definition HasSuffix :: "string \<Rightarrow> string \<Rightarrow> bool" where
  "HasSuffix s suffix \<longleftrightarrow>
     length s \<ge> length suffix \<and> drop (length s - length suffix) s = suffix"

text \<open>\<open>strings.Replace(s, old, new, 1)\<close>: the first occurrence of \<open>old\<close> replaced.\<close>

fun Replace_first :: "string \<Rightarrow> string \<Rightarrow> string \<Rightarrow> string" where
  "Replace_first [] old new = (if old = [] then new else [])"
| "Replace_first (c # s) old new =
     (if take (length old) (c # s) = old then new @ drop (length old) (c # s)
      else c # Replace_first s old new)"

section \<open>Writing the icon\<close>

text \<open>The table \<open>lookupRunes\<close>; a rune that is not in it reads as 0.\<close>

definition lookupRunes :: "rune \<Rightarrow> nat" where
  "lookupRunes r =
     (if r = 0x5F then 0 else if r = 0x2C then 1 else if r = 0x2E then 2 else if r = 0x27 then 3
      else if r = 0x2D then 4 else if r = 0x7E then 5 else if r = 0x2B then 6
      else if r = 0x3A then 7 else if r = 0x2A then 8 else if r = 0x3C then 9
      else if r = 0x3D then 10 else if r = 0x21 then 11 else if r = 0x25 then 12
      else if r = 0x7B then 15 else if r = 0x24 then 13 else if r = 0x40 then 14 else 0)"

text \<open>
  An image is its pixels, \<open>(R, G, B, A)\<close> each; \<open>image.NewRGBA\<close> starts with every
  component 0.
\<close>

type_synonym color = "nat \<times> nat \<times> nat \<times> nat"
type_synonym image = "int \<times> int \<Rightarrow> color"

definition NewRGBA :: image where
  "NewRGBA = (\<lambda>p. (0, 0, 0, 0))"

definition draw_pixel :: "rune list \<Rightarrow> int \<Rightarrow> int \<Rightarrow> image \<Rightarrow> image" where
  "draw_pixel runes x y m =
     (if x * 2 < int (length runes) then
        (let r = runes ! nat (x * 2) in
         if r = 0x54 then m((x, y) := (0, 0, 0, 0))
         else
           let intensity = (lookupRunes r * 16 + 15) mod 256
           in m((x, y) := (intensity, intensity, intensity, 0xFF)))
      else m((x, y) := (0xFF, 0xFF, 0xFF, 0)))"

fun draw_lines :: "byte list list \<Rightarrow> int \<Rightarrow> image \<Rightarrow> image" where
  "draw_lines [] y m = m"
| "draw_lines (line # rest) y m =
     (if y \<ge> 16 then m
      else draw_lines rest (y + 1) (fold (\<lambda>x. draw_pixel (runes_of_string line) x y) [0..15] m))"

text \<open>
  The files: the contents by name, and which names \<open>os.Create\<close> can create. The
  encoders \<open>png.Encode\<close> and \<open>EncodeGrayscale4bit\<close> (which wraps \<open>png.Encode\<close> of the
  image converted to gray in an ICO header) are parameters, the bytes they write.
\<close>

record FileSystem =
  files :: "string \<rightharpoonup> byte list"
  creatable :: "string \<Rightarrow> bool"

datatype error = PositionAfterData | OnlyGray4Implemented | CreateFailed string
  | ReadFailed string

definition WriteFavicon ::
  "(image \<Rightarrow> byte list) \<Rightarrow> (image \<Rightarrow> byte list) \<Rightarrow> FileSystem \<Rightarrow>
   Mode \<Rightarrow> byte list \<Rightarrow> string \<Rightarrow> bool \<Rightarrow> error option \<times> FileSystem" where
  "WriteFavicon png_Encode EncodeGrayscale4bit fs md contents filename asOther =
     (if md \<noteq> modeGray4 then (Some OnlyGray4Implemented, fs)
      else
        let m = draw_lines (Split 0x0A contents) 0 NewRGBA in
        if asOther \<and> HasSuffix filename ''.ico'' then
          (let filename = Replace_first filename ''.ico'' ''.png'' in
           if \<not> creatable fs filename then (Some (CreateFailed filename), fs)
           else (None, fs\<lparr>files := (files fs)(filename \<mapsto> png_Encode m)\<rparr>))
        else if \<not> asOther \<and> HasSuffix filename ''.png'' then
          (if \<not> creatable fs filename then (Some (CreateFailed filename), fs)
           else (None, fs\<lparr>files := (files fs)(filename \<mapsto> png_Encode m)\<rparr>))
        else
          let filename = (if asOther \<and> HasSuffix filename ''.png''
                          then Replace_first filename ''.png'' ''.ico'' else filename) in
          if \<not> creatable fs filename then (Some (CreateFailed filename), fs)
          else (None, fs\<lparr>files := (files fs)(filename \<mapsto> EncodeGrayscale4bit m)\<rparr>))"

section \<open>Reading the document\<close>

text \<open>
  \<open>for y := range e.lines\<close> visits every key once, in an order Go leaves unspecified.
  A loop body whose effect does not depend on that order is a fold over the key set.
\<close>

definition Len_step :: "int \<Rightarrow> int \<Rightarrow> int" where
  "Len_step y maxy = (if y > maxy then y else maxy)"

definition Len :: "Editor \<Rightarrow> int" where
  "Len e = Finite_Set.fold Len_step 0 (dom (lines e)) + 1"

text \<open>\<open>e.lines[y]\<close> read as a slice: the zero value (\<open>nil\<close>, of length 0) when absent.\<close>

definition line_at :: "Editor \<Rightarrow> int \<Rightarrow> rune list" where
  "line_at e y = (case lines e y of None \<Rightarrow> [] | Some l \<Rightarrow> l)"

definition Get :: "int \<Rightarrow> int \<Rightarrow> Editor \<Rightarrow> rune result" where
  "Get x y e =
     (case lines e y of
        None \<Rightarrow> Returns 0x20
      | Some runes \<Rightarrow>
          if x \<ge> int (length runes) then Returns 0x20
          else if x < 0 then Panics IndexOutOfRange
          else Returns (runes ! nat x))"

section \<open>Trimming trailing white space\<close>

text \<open>
  The scan of \<open>TrimRight\<close>: \<open>x\<close> runs from the last index down to 0 and stops at the
  first rune that is not white space; the result is the value \<open>lastIndex\<close> ends with.
\<close>

function TrimRight_scan :: "rune list \<Rightarrow> int \<Rightarrow> int \<Rightarrow> int" where
  "TrimRight_scan l lastIndex x =
     (if x \<ge> 0 then
        (if \<not> IsSpace (l ! nat x) then x else TrimRight_scan l lastIndex (x - 1))
      else lastIndex)"
  by pat_completeness auto
termination
  by (relation "measure (\<lambda>(l, lastIndex, x). nat (x + 1))") auto

declare TrimRight_scan.simps [simp del]

definition TrimRight :: "int \<Rightarrow> Editor \<Rightarrow> Editor" where
  "TrimRight n e =
     (case lines e n of
        None \<Rightarrow> e
      | Some l \<Rightarrow>
          let lastIndex = int (length l) - 1;
              lastIndex = TrimRight_scan l lastIndex lastIndex
          in e\<lparr>lines := (lines e)(n \<mapsto> take (nat (lastIndex + 1)) l), changed := True\<rparr>)"

section \<open>Data coordinates\<close>

text \<open>
  The scan of \<open>DataX\<close> over the runes of the current line; the result is the rune counter
  and whether the screen position was found.
\<close>

fun DataX_scan :: "rune list \<Rightarrow> int \<Rightarrow> int \<Rightarrow> int \<Rightarrow> int \<times> bool" where
  "DataX_scan [] psx screenCounter runeCounter = (runeCounter, False)"
| "DataX_scan (r # rs) psx screenCounter runeCounter =
     (if screenCounter = psx then (runeCounter, True)
      else DataX_scan rs psx (screenCounter + 1) (runeCounter + 1))"

definition DataX :: "Editor \<Rightarrow> int \<times> error option" where
  "DataX e =
     (if drawMode e then (sx (pos e), None)
      else
        let dataY = offset (pos e) + sy (pos e);
            (n, found) = DataX_scan (line_at e dataY) (sx (pos e)) 0 0
        in if \<not> found then (n, Some PositionAfterData) else (n, None))"

definition DataY :: "Editor \<Rightarrow> int" where
  "DataY e = (if drawMode e then sy (pos e) else offset (pos e) + sy (pos e))"

section \<open>Keeping the line numbers dense\<close>

text \<open>
  \<open>NewEditor\<close>. \<open>NewPosition\<close> is declared outside the given sources.
  Modelled from the spec: NewPosition is missing; the cursor is created at the origin.
\<close>

definition NewPosition :: Position where
  "NewPosition = \<lparr>sx = 0, sy = 0, offset = 0, savedX = 0\<rparr>"

definition NewEditor :: "bool \<Rightarrow> Mode \<Rightarrow> Editor" where
  "NewEditor textEditMode m =
     \<lparr>lines = Map.empty, changed = False, drawMode = (\<not> textEditMode), pos = NewPosition,
      redraw = False, redrawCursor = False, wordWrapAt = 99, mode = m\<rparr>"

text \<open>\<open>len(e.lines)\<close>, the number of entries of the map.\<close>

definition len_lines :: "Editor \<Rightarrow> int" where
  "len_lines e = int (card (dom (lines e)))"

text \<open>
  \<open>MakeConsistent\<close>: \<open>i\<close> counts up from 0 while \<open>i < len(e.lines)\<close>, and every missing
  index gets an empty line, which makes the map longer and so moves the bound. With an
  entry at a negative index the bound stays ahead of \<open>i\<close> for ever, so the loop is a
  partial function: \<open>None\<close> is the run that never ends.
\<close>

partial_function (option) MakeConsistent_loop :: "int \<Rightarrow> Editor \<Rightarrow> Editor option" where
  "MakeConsistent_loop i e =
     (if i < len_lines e then
        (if lines e i = None
         then MakeConsistent_loop (i + 1) (e\<lparr>lines := (lines e)(i \<mapsto> []), changed := True\<rparr>)
         else MakeConsistent_loop (i + 1) e)
      else Some e)"

definition MakeConsistent :: "Editor \<Rightarrow> Editor result" where
  "MakeConsistent e = (case MakeConsistent_loop 0 e of None \<Rightarrow> Diverges | Some e' \<Rightarrow> Returns e')"

text \<open>
  The loop "skip trailing newlines after this line" of \<open>InsertLineBelowAt\<close> and
  \<open>InsertLineAbove\<close>: from \<open>i = len(e.lines)\<close> down to \<open>y + 1\<close>, delete index \<open>i\<close> while
  the line there has length 0 (an absent line has), and stop at the first longer one.
\<close>

function skip_trailing :: "int \<Rightarrow> int \<Rightarrow> Editor \<Rightarrow> Editor" where
  "skip_trailing y i e =
     (if i > y then
        (if length (line_at e i) = 0
         then skip_trailing y (i - 1) (e\<lparr>lines := (lines e)(i := None)\<rparr>)
         else e)
      else e)"
  by pat_completeness auto
termination
  by (relation "measure (\<lambda>(y, i, e). nat (i - y))") auto

declare skip_trailing.simps [simp del]

text \<open>
  The body of the loop \<open>for k, v := range e.lines\<close> that builds \<open>lines2\<close> in
  \<open>InsertLineBelowAt\<close>. Each key writes to indices no other key writes to, so the
  order of the visits does not matter.
\<close>

definition below_step :: "int \<Rightarrow> (int \<rightharpoonup> rune list) \<Rightarrow> int \<Rightarrow> (int \<rightharpoonup> rune list) \<Rightarrow> (int \<rightharpoonup> rune list)" where
  "below_step y m k lines2 =
     (let v = the (m k) in
      if k < y then lines2(k \<mapsto> v)
      else if k = y then lines2(k \<mapsto> v, k + 1 \<mapsto> [])
      else if k > y then lines2(k + 1 \<mapsto> v)
      else lines2)"

definition InsertLineBelowAt :: "int \<Rightarrow> Editor \<Rightarrow> Editor result" where
  "InsertLineBelowAt y e0 =
     and_then (MakeConsistent e0) (\<lambda>e.
       if y = len_lines e - 1 then Returns (e\<lparr>lines := (lines e)(y + 1 \<mapsto> []), changed := True\<rparr>)
       else
         let lines2 = Finite_Set.fold (below_step y (lines e)) Map.empty (dom (lines e))
         in and_then (MakeConsistent (e\<lparr>lines := lines2\<rparr>)) (\<lambda>e.
              let e = skip_trailing y (len_lines e) e
              in MakeConsistent (e\<lparr>changed := True\<rparr>)))"

definition InsertLineBelow :: "Editor \<Rightarrow> Editor result" where
  "InsertLineBelow e = InsertLineBelowAt (DataY e) e"

text \<open>The same loop in \<open>InsertLineAbove\<close>, which compares with \<open>y - 1\<close>.\<close>

definition above_step :: "int \<Rightarrow> (int \<rightharpoonup> rune list) \<Rightarrow> int \<Rightarrow> (int \<rightharpoonup> rune list) \<Rightarrow> (int \<rightharpoonup> rune list)" where
  "above_step y m k lines2 =
     (let v = the (m k) in
      if k < y - 1 then lines2(k \<mapsto> v)
      else if k = y - 1 then lines2(k \<mapsto> v, k + 1 \<mapsto> [])
      else if k > y - 1 then lines2(k + 1 \<mapsto> v)
      else lines2)"

definition InsertLineAbove :: "Editor \<Rightarrow> Editor result" where
  "InsertLineAbove e =
     (let y = DataY e;
          lines2 = Finite_Set.fold (above_step y (lines e)) Map.empty (dom (lines e))
      in and_then (MakeConsistent (e\<lparr>lines := lines2\<rparr>)) (\<lambda>e.
           let e = skip_trailing y (len_lines e) e
           in MakeConsistent (e\<lparr>changed := True\<rparr>)))"

text \<open>
  \<open>DeleteLine\<close>. The search for the largest key keeps a flag \<open>found\<close>, set when a key
  above the running maximum (which starts at 0) is met.
\<close>

definition maxIndex_step :: "int \<Rightarrow> int \<times> bool \<Rightarrow> int \<times> bool" where
  "maxIndex_step k s = (case s of (maxIndex, found) \<Rightarrow> if k > maxIndex then (k, True) else (maxIndex, found))"

text \<open>
  The shifting loop: \<open>e.lines[i] = e.lines[i+1]\<close> for \<open>i\<close> from \<open>n\<close> to
  \<open>maxIndex - 1\<close>. Reading an absent line gives the \<open>nil\<close> slice, which is then stored.
\<close>

function shift_up :: "int \<Rightarrow> int \<Rightarrow> Editor \<Rightarrow> Editor" where
  "shift_up maxIndex i e =
     (if i \<le> maxIndex - 1
      then shift_up maxIndex (i + 1) (e\<lparr>lines := (lines e)(i \<mapsto> line_at e (i + 1))\<rparr>)
      else e)"
  by pat_completeness auto
termination
  by (relation "measure (\<lambda>(maxIndex, i, e). nat (maxIndex - i))") auto

declare shift_up.simps [simp del]

definition DeleteLine :: "int \<Rightarrow> Editor \<Rightarrow> Editor result" where
  "DeleteLine n e =
     (let endOfDocument = (n \<ge> Len e - 1) in
      if endOfDocument then Returns (e\<lparr>lines := (lines e)(n := None)\<rparr>)
      else
        let (maxIndex, found) = Finite_Set.fold maxIndex_step (0, False) (dom (lines e)) in
        if \<not> found then Returns e
        else if lines e maxIndex = None then Returns e
        else
          let e = shift_up maxIndex n e;
              e = e\<lparr>lines := (lines e)(maxIndex := None)\<rparr>;
              e = e\<lparr>changed := True\<rparr>
          in MakeConsistent e)"

text \<open>
  \<open>Delete\<close>. A slice expression \<open>s[:x]\<close> panics when \<open>x\<close> is negative or above the
  capacity of \<open>s\<close>; with \<open>x\<close> between the length and the capacity it extends the slice
  over the runes the backing array holds there. Those runes are no part of the editor
  state: they are the parameter \<open>spare\<close>, what the backing array of the current line
  holds past the line's length (the capacity is the length of the line plus the length of
  \<open>spare\<close>). In text mode \<open>DataX\<close> never returns more than the length.
\<close>

definition Delete :: "rune list \<Rightarrow> Editor \<Rightarrow> Editor result" where
  "Delete spare e =
     (let y = DataY e;
          llen = int (length (line_at e y)) in
      if lines e y = None \<or> llen = 0 \<or> (llen = 1 \<and> IsSpace (line_at e y ! 0)) then
        and_then (DeleteLine y e) (\<lambda>e. Returns (e\<lparr>changed := True\<rparr>))
      else
        let (x, err) = DataX e in
        if err \<noteq> None \<or> x \<ge> int (length (line_at e y)) - 1 then
          (if x < 0 \<or> x > int (length (line_at e y)) + int (length spare)
           then Panics SliceBoundsOutOfRange
           else
             let e = e\<lparr>lines := (lines e)(y \<mapsto> take (nat x) (line_at e y @ spare))\<rparr> in
             if lines e (y + 1) \<noteq> None \<and> length (line_at e (y + 1)) > 0 then
               (let nextLine = line_at e (y + 1);
                    e = e\<lparr>lines := (lines e)(y \<mapsto> line_at e y @ nextLine)\<rparr>
                in and_then (DeleteLine (y + 1) e) (\<lambda>e. Returns (e\<lparr>changed := True\<rparr>)))
             else Returns (e\<lparr>changed := True\<rparr>))
        else
          (if x < 0 then Panics SliceBoundsOutOfRange
           else
             let l = line_at e y;
                 e = e\<lparr>lines := (lines e)(y \<mapsto> take (nat x) l @ drop (nat (x + 1)) l)\<rparr>;
                 e = e\<lparr>changed := True\<rparr>
             in MakeConsistent e))"

text \<open>The density invariant: every index below \<open>Len\<close> has an entry.\<close>

definition dense :: "Editor \<Rightarrow> bool" where
  "dense e \<longleftrightarrow> (\<forall>y \<in> {0 ..< Len e}. lines e y \<noteq> None)"

section \<open>Lines as strings\<close>

definition Line :: "Editor \<Rightarrow> int \<Rightarrow> byte list" where
  "Line e n = (case lines e n of Some l \<Rightarrow> string_of_runes l | None \<Rightarrow> [])"

definition LastDataPosition :: "Editor \<Rightarrow> int \<Rightarrow> int" where
  "LastDataPosition e n = int (length (runes_of_string (Line e n))) - 1"

definition LastScreenPosition :: "Editor \<Rightarrow> int \<Rightarrow> int" where
  "LastScreenPosition e n = LastDataPosition e n"

definition FirstScreenPosition :: "Editor \<Rightarrow> int \<Rightarrow> int" where
  "FirstScreenPosition e n = int (length (takeWhile IsSpace (runes_of_string (Line e n))))"



text \<open>
  A string cut into its runes, each with the bytes it was decoded from. On this,
  \<open>strings.TrimSpace\<close> drops the white space runes at both ends and \<open>strings.Fields\<close>
  returns the maximal runs without white space. (The library decodes from the end when it
  trims on the right; on the valid UTF-8 that \<open>string(runes)\<close> produces, which is all
  these two are applied to, that finds the same runes.)
\<close>

function chunks :: "byte list \<Rightarrow> (rune \<times> byte list) list" where
  "chunks [] = []"
| "chunks (b # bs) =
     (fst (DecodeRune (b # bs)), take (snd (DecodeRune (b # bs))) (b # bs))
       # chunks (drop (snd (DecodeRune (b # bs))) (b # bs))"
  by pat_completeness auto
termination
proof (relation "measure length")
  show "wf (measure length)" by simp
next
  fix b :: byte and bs :: "byte list"
  have "0 < snd (DecodeRune (b # bs))"
    by (auto split: list.splits)
  then show "(drop (snd (DecodeRune (b # bs))) (b # bs), b # bs) \<in> measure length"
    by simp
qed

declare chunks.simps [simp del]





section \<open>Splitting and wrapping\<close>







section \<open>Typing a rune\<close>

text \<open>
  The canvas is only asked for its height. \<open>c == nil\<close> is \<open>None\<close>.
\<close>

type_synonym Canvas = int

text \<open>
  \<open>Position.SetX\<close> is declared outside the given sources.
  Modelled from the spec: SetX is missing; after vertical repositioning the horizontal
  position is reset to the given screen column.
\<close>

definition SetX :: "int \<Rightarrow> Position \<Rightarrow> Position" where
  "SetX x p = p\<lparr>sx := x\<rparr>"

text \<open>
  \<open>GoTo\<close> always returns \<open>true\<close>; only the editor it leaves is kept here. The status bar
  it clears is outside the model.
\<close>

definition GoTo :: "int \<Rightarrow> Canvas option \<Rightarrow> Editor \<Rightarrow> Editor" where
  "GoTo dataY0 c e =
     (if dataY0 = DataY e then e
      else
        let reachedEnd = \<not> dataY0 < 0 \<and> dataY0 \<ge> Len e;
            dataY = (if dataY0 < 0 then 0 else if dataY0 \<ge> Len e then Len e - 1 else dataY0);
            h = (case c of None \<Rightarrow> 25 | Some height \<Rightarrow> height);
            topY = offset (pos e);
            botY = offset (pos e) + h;
            e =
              (if dataY \<ge> topY \<and> dataY < botY then
                 e\<lparr>pos := (pos e)\<lparr>sy := dataY - offset (pos e)\<rparr>\<rparr>
               else if dataY < h then
                 e\<lparr>pos := (pos e)\<lparr>offset := 0, sy := dataY - 1\<rparr>\<rparr>
               else if reachedEnd then
                 e\<lparr>pos := (pos e)\<lparr>offset := Len e - h, sy := h - 1\<rparr>\<rparr>
               else
                 let prevY = sy (pos e);
                     lessJumpY = prevY;
                     lessJumpOffset = dataY - prevY
                 in if lessJumpY + lessJumpOffset < Len e
                    then e\<lparr>pos := (pos e)\<lparr>sy := lessJumpY, offset := lessJumpOffset\<rparr>\<rparr>
                    else e\<lparr>pos := (pos e)\<lparr>sy := 0, offset := dataY\<rparr>\<rparr>);
            e = e\<lparr>pos := SetX (FirstScreenPosition e (DataY e)) (pos e)\<rparr>
        in e\<lparr>redrawCursor := True\<rparr>)"

definition nextLine :: "int \<Rightarrow> Canvas option \<Rightarrow> Editor \<Rightarrow> Editor" where
  "nextLine y c e = GoTo (y + 1) c (e\<lparr>pos := (pos e)\<lparr>sx := 0\<rparr>\<rparr>)"





section \<open>Saving and loading\<close>

text \<open>
  \<open>bytes.TrimRightFunc(s, f)\<close> slices off the trailing UTF-8 encoded code points that
  satisfy \<open>f\<close>. (The library decodes from the end; on the valid UTF-8 that \<open>String\<close>
  produces, which is all it is applied to, that finds the same code points.)
\<close>

definition TrimRightFunc :: "(rune \<Rightarrow> bool) \<Rightarrow> byte list \<Rightarrow> byte list" where
  "TrimRightFunc f s = concat (map snd (rev (dropWhile (\<lambda>c. f (fst c)) (rev (chunks s)))))"

text \<open>
  \<open>bytes.Replace(s, old, new, -1)\<close> for a non-empty \<open>old\<close>: every occurrence replaced, from
  the left, without overlap.
\<close>

function Replace_all :: "byte list \<Rightarrow> byte list \<Rightarrow> byte list \<Rightarrow> byte list" where
  "Replace_all [] old new = []"
| "Replace_all (b # bs) old new =
     (if old \<noteq> [] \<and> take (length old) (b # bs) = old
      then new @ Replace_all (drop (length old) (b # bs)) old new
      else b # Replace_all bs old new)"
  by pat_completeness auto
termination
  by (relation "measure (\<lambda>(s, old, new). length s)") (auto simp: neq_Nil_conv)

declare Replace_all.simps [simp del]

definition Clear :: "Editor \<Rightarrow> Editor" where
  "Clear e = e\<lparr>lines := Map.empty, changed := True\<rparr>"

text \<open>The loop of \<open>Set\<close> that fills a short line up with spaces.\<close>

function fill_spaces :: "int \<Rightarrow> rune list \<Rightarrow> rune list" where
  "fill_spaces x l = (if x \<ge> int (length l) then fill_spaces x (l @ [0x20]) else l)"
  by pat_completeness auto
termination
  by (relation "measure (\<lambda>(x, l). nat (x + 1 - int (length l)))") auto

declare fill_spaces.simps [simp del]

text \<open>
  \<open>Set\<close>. \<open>make([]rune, 0, x+1)\<close> panics on a negative capacity, and the index
  \<open>e.lines[y][x]\<close> on a negative \<open>x\<close>.
\<close>

definition Set :: "int \<Rightarrow> int \<Rightarrow> rune \<Rightarrow> Editor \<Rightarrow> Editor result" where
  "Set x y r e0 =
     (if lines e0 y = None \<and> x + 1 < 0 then Panics MakeSliceOutOfRange
      else
        let e = (if lines e0 y = None then e0\<lparr>lines := (lines e0)(y \<mapsto> [])\<rparr> else e0) in
        if x < int (length (line_at e y)) then
          (if x < 0 then Panics IndexOutOfRange
           else Returns (e\<lparr>lines := (lines e)(y \<mapsto> (line_at e y)[nat x := r]), changed := True\<rparr>))
        else
          let l = fill_spaces x (line_at e y)
          in Returns (e\<lparr>lines := (lines e)(y \<mapsto> l[nat x := r]), changed := True\<rparr>))"

definition String :: "Editor \<Rightarrow> byte list" where
  "String e = concat (map (\<lambda>i. Line e i @ [0x0A]) [0 .. Len e - 1])"

text \<open>The loop of \<open>Save\<close> that trims every line.\<close>

function trim_all_lines :: "int \<Rightarrow> Editor \<Rightarrow> Editor" where
  "trim_all_lines i e = (if i < Len e then trim_all_lines (i + 1) (TrimRight i e) else e)"
  by pat_completeness auto
termination
proof (relation "measure (\<lambda>(i, e). nat (Len e - i))")
  show "wf (measure (\<lambda>(i, e). nat (Len e - i)))" by simp
next
  fix i :: int and e :: Editor
  assume lt: "i < Len e"
  have "dom (lines (TrimRight i e)) = dom (lines e)"
    by (auto simp: TrimRight_def Let_def split: option.splits)
  then have "Len (TrimRight i e) = Len e" by (simp add: Len_def)
  then show "((i + 1, TrimRight i e), (i, e)) \<in> measure (\<lambda>(i, e). nat (Len e - i))"
    using lt by simp
qed

declare trim_all_lines.simps [simp del]

text \<open>\<open>ioutil.WriteFile\<close>: the file is created, or the call fails and writes nothing.\<close>

definition WriteFile :: "FileSystem \<Rightarrow> string \<Rightarrow> byte list \<Rightarrow> error option \<times> FileSystem" where
  "WriteFile fs name data =
     (if \<not> creatable fs name then (Some (CreateFailed name), fs)
      else (None, fs\<lparr>files := (files fs)(name \<mapsto> data)\<rparr>))"

text \<open>
  \<open>Save\<close>. The local \<open>stripTrailingSpaces\<close> is the constant \<open>true\<close>, so only that branch
  is here. The result is the editor, the error and the files.
\<close>

definition Save ::
  "(image \<Rightarrow> byte list) \<Rightarrow> (image \<Rightarrow> byte list) \<Rightarrow> FileSystem \<Rightarrow> string \<Rightarrow> bool \<Rightarrow> Editor
   \<Rightarrow> Editor \<times> error option \<times> FileSystem" where
  "Save png_Encode EncodeGrayscale4bit fs filename asOther e0 =
     (if HasSuffix filename ''.ico'' \<or> HasSuffix filename ''.png'' then
        (let (err, fs') =
               WriteFavicon png_Encode EncodeGrayscale4bit fs (mode e0) (String e0) filename asOther
         in (e0, err, fs'))
      else
        let e = trim_all_lines 0 e0;
            data = TrimRightFunc IsSpace (String e);
            data = Replace_all data [0xC2, 0xA0] [0x20];
            data = data @ [0x0A];
            e = e\<lparr>changed := False\<rparr>;
            (err, fs') = WriteFile fs filename data
        in (e, err, fs'))"

text \<open>The two loops of \<open>Load\<close>: over the lines of the file, and over the runes of a line.\<close>

fun set_runes :: "rune list \<Rightarrow> int \<Rightarrow> int \<Rightarrow> Editor \<Rightarrow> Editor result" where
  "set_runes [] counter y e = Returns e"
| "set_runes (letter # rest) counter y e =
     and_then (Set counter y letter e) (set_runes rest (counter + 1) y)"

fun load_lines :: "byte list list \<Rightarrow> int \<Rightarrow> Editor \<Rightarrow> Editor result" where
  "load_lines [] y e = Returns e"
| "load_lines (dataline # rest) y e =
     and_then (set_runes (runes_of_string dataline) 0 y e) (load_lines rest (y + 1))"

text \<open>
  \<open>Load\<close>. \<open>ReadFavicon\<close>, called only for names that end in \<open>.ico\<close> or \<open>.png\<close>,
  decodes an image with the PNG and ICO libraries and is a parameter: the mode, the text,
  the message and the error it returns. The canvas and the terminal are not used. The
  result is the message, the error and the editor.
\<close>

definition Load ::
  "(FileSystem \<Rightarrow> string \<Rightarrow> bool \<Rightarrow> bool \<Rightarrow> Mode \<times> byte list \<times> string \<times> error option)
   \<Rightarrow> FileSystem \<Rightarrow> string \<Rightarrow> Editor \<Rightarrow> (string \<times> error option \<times> Editor) result" where
  "Load ReadFavicon fs filename e0 =
     (let (e, data, message, err) =
        (if HasSuffix filename ''.ico'' then
           (let (md, data, message, err) = ReadFavicon fs filename False False
            in ((if err = None then e0\<lparr>mode := md, drawMode := True\<rparr> else e0), data, message, err))
         else if HasSuffix filename ''.png'' then
           (let (md, data, message, err) = ReadFavicon fs filename False True
            in ((if err = None then e0\<lparr>mode := md, drawMode := True\<rparr> else e0), data, message, err))
         else
           (case files fs filename of
              None \<Rightarrow> (e0, [], [], Some (ReadFailed filename))
            | Some data \<Rightarrow>
                (e0,
                 (if 0x0D \<in> set data
                  then Replace_all (Replace_all data [0x0D, 0x0A] [0x0A]) [0x0D] [0x0A]
                  else data),
                 [], None)))
      in if err \<noteq> None then Returns (message, err, e)
         else and_then (load_lines (Split 0x0A data) 0 (Clear e))
                (\<lambda>e. Returns (message, None, e\<lparr>changed := False\<rparr>)))"

text \<open>
  The normalisation of the round trip, in the words of the specification: a line without
  its trailing white space.
\<close>

definition stripped :: "rune list \<Rightarrow> rune list" where
  "stripped l = rev (dropWhile IsSpace (rev l))"

section \<open>The older variants in editor.go\<close>

text \<open>
  \<open>editor.go\<close> holds an older version of the same editor. Its \<open>Len\<close> and \<open>Get\<close>
  read the same as the ones above. Its \<open>DataX\<close> expands tabs (the editor has a field
  \<open>spacesPerTab\<close>, a parameter here), has no draw mode branch, and calls the scroll offset
  \<open>scroll\<close> (the field \<open>offset\<close> here); its \<open>DataY\<close> has no draw mode branch either.
  Its \<open>TrimSpaceRight\<close> stops the scan above index 0. Its \<open>MakeConsistent\<close> returns an
  error when the index just past the filled range is present, and its \<open>DeleteLine\<close> and
  \<open>Delete\<close> panic with that error.
\<close>

fun DataX_tabs_scan :: "int \<Rightarrow> rune list \<Rightarrow> int \<Rightarrow> int \<Rightarrow> int \<Rightarrow> int \<times> bool" where
  "DataX_tabs_scan spacesPerTab [] psx screenCounter runeCounter = (runeCounter, False)"
| "DataX_tabs_scan spacesPerTab (r # rs) psx screenCounter runeCounter =
     (if screenCounter = psx then (runeCounter, True)
      else DataX_tabs_scan spacesPerTab rs psx
             (if r = 0x09 then screenCounter + spacesPerTab else screenCounter + 1)
             (runeCounter + 1))"

definition DataX_tabs :: "int \<Rightarrow> Editor \<Rightarrow> int \<times> error option" where
  "DataX_tabs spacesPerTab e =
     (let dataY = offset (pos e) + sy (pos e);
          (n, found) = DataX_tabs_scan spacesPerTab (line_at e dataY) (sx (pos e)) 0 0
      in if \<not> found then (n, Some PositionAfterData) else (n, None))"

function TrimSpaceRight_scan :: "rune list \<Rightarrow> int \<Rightarrow> int \<Rightarrow> int" where
  "TrimSpaceRight_scan l lastIndex x =
     (if x > 0 then
        (if \<not> IsSpace (l ! nat x) then x else TrimSpaceRight_scan l lastIndex (x - 1))
      else lastIndex)"
  by pat_completeness auto
termination
  by (relation "measure (\<lambda>(l, lastIndex, x). nat x)") auto

declare TrimSpaceRight_scan.simps [simp del]

definition TrimSpaceRight :: "int \<Rightarrow> Editor \<Rightarrow> Editor" where
  "TrimSpaceRight n e =
     (case lines e n of
        None \<Rightarrow> e
      | Some l \<Rightarrow>
          let lastIndex = int (length l) - 1;
              lastIndex = TrimSpaceRight_scan l lastIndex lastIndex
          in e\<lparr>lines := (lines e)(n \<mapsto> take (nat (lastIndex + 1)) l), changed := True\<rparr>)"

definition DataY_editor_go :: "Editor \<Rightarrow> int" where
  "DataY_editor_go e = offset (pos e) + sy (pos e)"

definition MakeConsistent_editor_go :: "Editor \<Rightarrow> Editor result" where
  "MakeConsistent_editor_go e =
     (case MakeConsistent_loop 0 e of
        None \<Rightarrow> Diverges
      | Some e' \<Rightarrow>
          let i = len_lines e' in
          if lines e' i \<noteq> None then Panics (LineShouldNotBeThere i) else Returns e')"

definition DeleteLine_editor_go :: "int \<Rightarrow> Editor \<Rightarrow> Editor result" where
  "DeleteLine_editor_go n e =
     (let endOfDocument = (n \<ge> Len e - 1) in
      if endOfDocument then Returns (e\<lparr>lines := (lines e)(n := None)\<rparr>)
      else
        let (maxIndex, found) = Finite_Set.fold maxIndex_step (0, False) (dom (lines e)) in
        if \<not> found then Returns e
        else if lines e maxIndex = None then Returns e
        else
          let e = shift_up maxIndex n e;
              e = e\<lparr>lines := (lines e)(maxIndex := None)\<rparr>
          in and_then (MakeConsistent_editor_go e) (\<lambda>e. Returns (e\<lparr>changed := True\<rparr>)))"

definition Delete_editor_go :: "int \<Rightarrow> rune list \<Rightarrow> Editor \<Rightarrow> Editor result" where
  "Delete_editor_go spacesPerTab spare e =
     (let y = DataY_editor_go e in
      if lines e y = None \<or> length (line_at e y) = 0
         \<or> (length (line_at e y) = 1 \<and> IsSpace (line_at e y ! 0)) then
        and_then (DeleteLine_editor_go y e) (\<lambda>e. Returns (e\<lparr>changed := True\<rparr>))
      else
        let (x, err) = DataX_tabs spacesPerTab e in
        if err \<noteq> None \<or> x \<ge> int (length (line_at e y)) - 1 then
          (if x < 0 \<or> x > int (length (line_at e y)) + int (length spare)
           then Panics SliceBoundsOutOfRange
           else
             let e = e\<lparr>lines := (lines e)(y \<mapsto> take (nat x) (line_at e y @ spare))\<rparr> in
             if lines e (y + 1) \<noteq> None \<and> length (line_at e (y + 1)) > 0 then
               (let nextLine = line_at e (y + 1);
                    e = e\<lparr>lines := (lines e)(y \<mapsto> line_at e y @ nextLine)\<rparr>
                in and_then (DeleteLine_editor_go (y + 1) e) (\<lambda>e. Returns (e\<lparr>changed := True\<rparr>)))
             else Returns (e\<lparr>changed := True\<rparr>))
        else
          (if x < 0 then Panics SliceBoundsOutOfRange
           else
             let l = line_at e y;
                 e = e\<lparr>lines := (lines e)(y \<mapsto> take (nat x) l @ drop (nat (x + 1)) l)\<rparr>
             in and_then (MakeConsistent_editor_go e) (\<lambda>e. Returns (e\<lparr>changed := True\<rparr>))))"

section \<open>Closed forms used in the proofs\<close>







text \<open>
  The text of a document whose lines are \<open>ls\<close>, each followed by a line feed; the lines
  without the empty ones at the end; and the line at an index, empty outside the list.
\<close>

definition join_lines :: "rune list list \<Rightarrow> rune list" where
  "join_lines ls = concat (map (\<lambda>l. l @ [0x0A]) ls)"

definition drop_trailing_empty :: "rune list list \<Rightarrow> rune list list" where
  "drop_trailing_empty ls = rev (dropWhile (\<lambda>l. l = []) (rev ls))"

definition nth_or :: "rune list list \<Rightarrow> int \<Rightarrow> rune list" where
  "nth_or ls k = (if 0 \<le> k \<and> k < int (length ls) then ls ! nat k else [])"

text \<open>
  Two documents to save: one with a no-break space inside a line, one with a trailing
  space and a missing line.
\<close>

definition nbsp_doc :: Editor where
  "nbsp_doc = (NewEditor True modeBlank)\<lparr>lines := [0 \<mapsto> [0x61, 0xA0, 0x62]]\<rparr>"

definition round_trip_doc :: Editor where
  "round_trip_doc = (NewEditor True modeBlank)\<lparr>lines := [0 \<mapsto> [0x61, 0x62, 0x20], 2 \<mapsto> [0x63]]\<rparr>"

section \<open>Properties\<close>

lemma Len_step_commute: "comp_fun_commute_on UNIV Len_step"
  by unfold_locales (auto simp: Len_step_def fun_eq_iff)

lemma fold_Len_step: "finite A \<Longrightarrow> Finite_Set.fold Len_step 0 A = Max (insert 0 A)"
proof (induction A rule: finite_induct)
  case empty
  then show ?case by simp
next
  case (insert x F)
  have "Finite_Set.fold Len_step 0 (insert x F) = Len_step x (Finite_Set.fold Len_step 0 F)"
    using insert.hyps by (simp add: comp_fun_commute_on.fold_insert [OF Len_step_commute])
  also have "\<dots> = max x (Max (insert 0 F))"
    unfolding insert.IH by (simp add: Len_step_def max_def)
  also have "\<dots> = Max (insert x (insert 0 F))"
    using insert.hyps(1) by (subst Max_insert) auto
  finally show ?case by (simp add: insert_commute)
qed

lemma Len_Max: "finite (dom (lines e)) \<Longrightarrow> Len e = Max (insert 0 (dom (lines e))) + 1"
  by (simp add: Len_def fold_Len_step)

subsection \<open>The loops over the map\<close>

lemma maxIndex_step_commute: "comp_fun_commute_on UNIV maxIndex_step"
  by unfold_locales (auto simp: maxIndex_step_def fun_eq_iff)

lemma fold_maxIndex_step:
  "finite A \<Longrightarrow> Finite_Set.fold maxIndex_step (0, False) A = (Max (insert 0 A), \<exists>k\<in>A. k > 0)"
proof (induction A rule: finite_induct)
  case empty
  then show ?case by simp
next
  case (insert x F)
  have m: "Max (insert 0 (insert x F)) = max x (Max (insert 0 F))"
    using insert.hyps(1) by (subst insert_commute, subst Max_insert) auto
  have ge: "0 \<le> Max (insert 0 F)" using insert.hyps(1) by simp
  have mem: "Max (insert 0 F) = 0 \<or> Max (insert 0 F) \<in> F"
    using Max_in [of "insert 0 F"] insert.hyps(1) by auto
  have "Finite_Set.fold maxIndex_step (0, False) (insert x F)
          = maxIndex_step x (Finite_Set.fold maxIndex_step (0, False) F)"
    using insert.hyps by (simp add: comp_fun_commute_on.fold_insert [OF maxIndex_step_commute])
  also have "\<dots> = maxIndex_step x (Max (insert 0 F), \<exists>k\<in>F. k > 0)"
    unfolding insert.IH ..
  also have "\<dots> = (Max (insert 0 (insert x F)), \<exists>k\<in>insert x F. k > 0)"
    unfolding m using ge mem
    by (auto simp: maxIndex_step_def max_def intro: bexI [where x = "Max (insert 0 F)"])
  finally show ?case .
qed



lemma above_step_below_step: "above_step y m = below_step (y - 1) m"
  by (simp add: above_step_def below_step_def fun_eq_iff)

subsection \<open>MakeConsistent on a dense document\<close>




subsection \<open>The scans\<close>

lemma DataX_scan_eq:
  "sc \<le> psx \<Longrightarrow> DataX_scan l psx sc rc =
     (if psx - sc < int (length l) then (rc + (psx - sc), True) else (rc + int (length l), False))"
  by (induction l arbitrary: sc rc) auto

lemma DataX_tabs_scan_no_tab:
  "0x09 \<notin> set l \<Longrightarrow> DataX_tabs_scan spt l psx sc rc = DataX_scan l psx sc rc"
  by (induction l arbitrary: sc rc) auto

lemma TrimRight_scan_all_space:
  "x < int (length l) \<Longrightarrow> (\<forall>i. 0 \<le> i \<and> i \<le> x \<longrightarrow> IsSpace (l ! nat i)) \<Longrightarrow> TrimRight_scan l d x = d"
proof (induction l d x rule: TrimRight_scan.induct)
  case (1 l lastIndex x)
  then show ?case by (subst TrimRight_scan.simps) auto
qed

lemma TrimRight_scan_found:
  "x < int (length l) \<Longrightarrow> 0 \<le> i \<Longrightarrow> i \<le> x \<Longrightarrow> \<not> IsSpace (l ! nat i) \<Longrightarrow>
   (\<forall>j. i < j \<and> j \<le> x \<longrightarrow> IsSpace (l ! nat j)) \<Longrightarrow> TrimRight_scan l d x = i"
proof (induction l d x rule: TrimRight_scan.induct)
  case (1 l lastIndex x)
  show ?case
  proof (cases "x = i")
    case True
    then show ?thesis using 1 by (subst TrimRight_scan.simps) auto
  next
    case False
    then have "IsSpace (l ! nat x)" "i \<le> x - 1" using 1 by auto
    then show ?thesis using 1 False by (subst TrimRight_scan.simps) auto
  qed
qed

subsection \<open>Trailing empty lines\<close>




subsection \<open>Inserting a line below, on a dense document\<close>




subsection \<open>What TrimRight leaves\<close>

lemma TrimRight_lines:
  assumes "lines e n = Some l"
  shows "lines (TrimRight n e) =
           (lines e)(n \<mapsto> (if \<forall>r\<in>set l. IsSpace r then l else rev (dropWhile IsSpace (rev l))))"
proof (cases "\<forall>r\<in>set l. IsSpace r")
  case True
  then have "\<forall>i. 0 \<le> i \<and> i \<le> int (length l) - 1 \<longrightarrow> IsSpace (l ! nat i)"
    by (auto simp: nat_less_iff)
  then have "TrimRight_scan l (int (length l) - 1) (int (length l) - 1) = int (length l) - 1"
    by (intro TrimRight_scan_all_space) auto
  then show ?thesis using assms True by (simp add: TrimRight_def)
next
  case False
  let ?t = "rev (dropWhile IsSpace (rev l))"
  let ?s = "rev (takeWhile IsSpace (rev l))"
  have l: "l = ?t @ ?s"
    by (metis rev_append rev_rev_ident takeWhile_dropWhile_id)
  have tne: "dropWhile IsSpace (rev l) \<noteq> []" using False by auto
  then have t0: "0 < length ?t" by simp
  have lastt: "\<not> IsSpace (last ?t)"
    using tne by (simp add: last_rev hd_dropWhile)
  let ?i = "int (length ?t) - 1"
  have len: "length l = length ?t + length ?s" using l by (metis length_append)
  have li: "l ! nat ?i = last ?t"
  proof -
    have "nat ?i = length ?t - 1" by simp
    moreover have "l ! (length ?t - 1) = ?t ! (length ?t - 1)"
      using t0 by (subst l) (simp add: nth_append)
    ultimately show ?thesis using t0 by (simp add: last_conv_nth)
  qed
  have after: "IsSpace (l ! nat j)" if "?i < j" "j \<le> int (length l) - 1" for j
  proof -
    have a: "length ?t \<le> nat j" "nat j - length ?t < length ?s" using that len by auto
    have "l ! nat j = ?s ! (nat j - length ?t)"
      using a by (subst l) (simp add: nth_append)
    moreover have "?s ! (nat j - length ?t) \<in> set ?s" using a by (intro nth_mem)
    ultimately show ?thesis by (auto dest: set_takeWhileD)
  qed
  have "TrimRight_scan l (int (length l) - 1) (int (length l) - 1) = ?i"
    using t0 len lastt li after by (intro TrimRight_scan_found) auto
  moreover have "take (length ?t) l = ?t" by (subst l) simp
  moreover have "nat (?i + 1) = length ?t" by simp
  ultimately show ?thesis using assms False by (auto simp: TrimRight_def)
qed

lemma TrimRight_fields:
  "pos (TrimRight n e) = pos e \<and> drawMode (TrimRight n e) = drawMode e
   \<and> wordWrapAt (TrimRight n e) = wordWrapAt e \<and> mode (TrimRight n e) = mode e
   \<and> redraw (TrimRight n e) = redraw e \<and> redrawCursor (TrimRight n e) = redrawCursor e
   \<and> dom (lines (TrimRight n e)) = dom (lines e)"
  by (auto simp: TrimRight_def Let_def split: option.splits)

subsection \<open>Decoding what was encoded\<close>

lemma DecodeRune_1:
  assumes "0 \<le> r" "r \<le> 0x7F"
  shows "DecodeRune (nat r # bs) = (r, 1)"
  using assms by auto

lemma DecodeRune_2:
  assumes "0x80 \<le> r" "r \<le> 0x7FF"
  shows "DecodeRune ((0xC0 + nat (r div 64)) # (0x80 + nat (r mod 64)) # bs) = (r, 2)"
proof -
  define b0 where "b0 = 0xC0 + nat (r div 64)"
  define b1 where "b1 = 0x80 + nat (r mod 64)"
  have q: "2 \<le> r div 64" "r div 64 \<le> 31" using assms by auto
  have m: "0 \<le> r mod 64" "r mod 64 < 64" by auto
  have c0: "\<not> b0 < 0x80" "\<not> (b0 < 0xC2 \<or> 0xF4 < b0)" "b0 < 0xE0"
    using q by (auto simp: b0_def)
  have c1: "cont b1" using m by (auto simp: b1_def cont_def)
  have "int (b0 - 0xC0) = r div 64" "int (b1 - 0x80) = r mod 64"
    using q m by (auto simp: b0_def b1_def)
  then have v: "int (b0 - 0xC0) * 64 + int (b1 - 0x80) = r" by simp
  have "DecodeRune (b0 # b1 # bs) = (r, 2)"
    using c0 c1 v by simp
  then show ?thesis by (simp only: b0_def b1_def)
qed

lemma split3:
  fixes r :: int
  shows "r = (r div 4096) * 4096 + (r div 64 mod 64) * 64 + r mod 64"
proof -
  have "r div 4096 = r div 64 div 64"
    using zdiv_zmult2_eq [of 64 r 64] by simp
  moreover have "r div 64 = (r div 64 div 64) * 64 + r div 64 mod 64" by simp
  moreover have "r = (r div 64) * 64 + r mod 64" by simp
  ultimately show ?thesis by linarith
qed

lemma split4:
  fixes r :: int
  shows "r = (r div 262144) * 262144 + (r div 4096 mod 64) * 4096 + (r div 64 mod 64) * 64 + r mod 64"
proof -
  have "r div 262144 = r div 4096 div 64"
    using zdiv_zmult2_eq [of 64 r 4096] by simp
  moreover have "r div 4096 = (r div 4096 div 64) * 64 + r div 4096 mod 64" by simp
  ultimately have "(r div 4096) * 4096 = (r div 262144) * 262144 + (r div 4096 mod 64) * 4096"
    by linarith
  then show ?thesis using split3 [of r] by linarith
qed

lemma DecodeRune_3:
  assumes "0x800 \<le> r" "r \<le> 0xFFFF" "\<not> (0xD800 \<le> r \<and> r \<le> 0xDFFF)"
  shows "DecodeRune ((0xE0 + nat (r div 4096)) # (0x80 + nat (r div 64 mod 64)) # (0x80 + nat (r mod 64)) # bs) = (r, 3)"
proof -
  define b0 where "b0 = 0xE0 + nat (r div 4096)"
  define b1 where "b1 = 0x80 + nat (r div 64 mod 64)"
  define b2 where "b2 = 0x80 + nat (r mod 64)"
  define q where "q = r div 4096"
  define p where "p = r div 64 mod 64"
  define m where "m = r mod 64"
  have p: "0 \<le> p" "p < 64" by (simp_all add: p_def)
  have m: "0 \<le> m" "m < 64" by (simp_all add: m_def)
  have r: "r = q * 4096 + p * 64 + m" unfolding q_def p_def m_def by (rule split3)
  have q: "0 \<le> q" "q \<le> 15" using assms r p m by linarith+
  have q0: "q = 0 \<Longrightarrow> 32 \<le> p" using assms(1) r p m by linarith
  have q13: "q = 13 \<Longrightarrow> p \<le> 31" using assms(3) r p m by linarith
  have c0: "\<not> b0 < 0x80" "\<not> (b0 < 0xC2 \<or> 0xF4 < b0)" "\<not> b0 < 0xE0" "b0 < 0xF0"
    using q by (auto simp: b0_def q_def [symmetric])
  have e0: "b0 = 0xE0 \<longleftrightarrow> q = 0" and ed: "b0 = 0xED \<longleftrightarrow> q = 13"
    using q by (auto simp: b0_def q_def [symmetric])
  have c1: "(if b0 = 0xE0 then 0xA0 else 0x80) \<le> b1 \<and> b1 \<le> (if b0 = 0xED then 0x9F else 0xBF)"
    unfolding e0 ed using p q0 q13 by (auto simp: b1_def p_def [symmetric])
  have c2: "cont b2" using m by (auto simp: b2_def cont_def m_def [symmetric])
  have "int (b0 - 0xE0) = q" "int (b1 - 0x80) = p" "int (b2 - 0x80) = m"
    using q p m by (auto simp: b0_def b1_def b2_def q_def [symmetric] p_def [symmetric] m_def [symmetric])
  then have v: "int (b0 - 0xE0) * 4096 + int (b1 - 0x80) * 64 + int (b2 - 0x80) = r"
    using r by simp
  have "DecodeRune (b0 # b1 # b2 # bs) = (r, 3)"
    using c0 c1 c2 v by simp
  then show ?thesis by (simp only: b0_def b1_def b2_def)
qed

lemma DecodeRune_4:
  assumes "0x10000 \<le> r" "r \<le> 0x10FFFF"
  shows "DecodeRune ((0xF0 + nat (r div 262144)) # (0x80 + nat (r div 4096 mod 64))
           # (0x80 + nat (r div 64 mod 64)) # (0x80 + nat (r mod 64)) # bs) = (r, 4)"
proof -
  define b0 where "b0 = 0xF0 + nat (r div 262144)"
  define b1 where "b1 = 0x80 + nat (r div 4096 mod 64)"
  define b2 where "b2 = 0x80 + nat (r div 64 mod 64)"
  define b3 where "b3 = 0x80 + nat (r mod 64)"
  define q where "q = r div 262144"
  define u where "u = r div 4096 mod 64"
  define p where "p = r div 64 mod 64"
  define m where "m = r mod 64"
  have u: "0 \<le> u" "u < 64" by (simp_all add: u_def)
  have p: "0 \<le> p" "p < 64" by (simp_all add: p_def)
  have m: "0 \<le> m" "m < 64" by (simp_all add: m_def)
  have r: "r = q * 262144 + u * 4096 + p * 64 + m" unfolding q_def u_def p_def m_def by (rule split4)
  have q: "0 \<le> q" "q \<le> 4" using assms r u p m by linarith+
  have q0: "q = 0 \<Longrightarrow> 16 \<le> u" using assms(1) r u p m by linarith
  have q4: "q = 4 \<Longrightarrow> u \<le> 15" using assms(2) r u p m by linarith
  have c0: "\<not> b0 < 0x80" "\<not> (b0 < 0xC2 \<or> 0xF4 < b0)" "\<not> b0 < 0xE0" "\<not> b0 < 0xF0"
    using q by (auto simp: b0_def q_def [symmetric])
  have e0: "b0 = 0xF0 \<longleftrightarrow> q = 0" and e4: "b0 = 0xF4 \<longleftrightarrow> q = 4"
    using q by (auto simp: b0_def q_def [symmetric])
  have c1: "(if b0 = 0xF0 then 0x90 else 0x80) \<le> b1 \<and> b1 \<le> (if b0 = 0xF4 then 0x8F else 0xBF)"
    unfolding e0 e4 using u q0 q4 by (auto simp: b1_def u_def [symmetric])
  have c2: "cont b2" using p by (auto simp: b2_def cont_def p_def [symmetric])
  have c3: "cont b3" using m by (auto simp: b3_def cont_def m_def [symmetric])
  have "int (b0 - 0xF0) = q" "int (b1 - 0x80) = u" "int (b2 - 0x80) = p" "int (b3 - 0x80) = m"
    using q u p m
    by (auto simp: b0_def b1_def b2_def b3_def q_def [symmetric] u_def [symmetric] p_def [symmetric] m_def [symmetric])
  then have v: "int (b0 - 0xF0) * 262144 + int (b1 - 0x80) * 4096 + int (b2 - 0x80) * 64 + int (b3 - 0x80) = r"
    using r by simp
  have "DecodeRune (b0 # b1 # b2 # b3 # bs) = (r, 4)"
    using c0 c1 c2 c3 v by simp
  then show ?thesis by (simp only: b0_def b1_def b2_def b3_def)
qed

lemma DecodeRune_EncodeRune:
  "DecodeRune (EncodeRune r @ bs) = (if ValidRune r then r else RuneError, length (EncodeRune r))"
proof -
  consider (a) "0 \<le> r \<and> r \<le> 0x7F" | (b) "0x80 \<le> r \<and> r \<le> 0x7FF"
    | (c) "r < 0 \<or> r > 0x10FFFF \<or> (0xD800 \<le> r \<and> r \<le> 0xDFFF)"
    | (d) "0x800 \<le> r \<and> r \<le> 0xFFFF \<and> \<not> (0xD800 \<le> r \<and> r \<le> 0xDFFF)"
    | (e) "0x10000 \<le> r \<and> r \<le> 0x10FFFF"
    by linarith
  then show ?thesis
  proof cases
    case a
    then show ?thesis using DecodeRune_1 [of r bs] by (simp add: EncodeRune_def ValidRune_def)
  next
    case b
    then show ?thesis using DecodeRune_2 [of r bs] by (simp add: EncodeRune_def ValidRune_def)
  next
    case c
    then have "EncodeRune r = [0xEF, 0xBF, 0xBD]" by (auto simp: EncodeRune_def)
    moreover have "\<not> ValidRune r" using c by (auto simp: ValidRune_def)
    ultimately show ?thesis by (simp add: cont_def RuneError_def)
  next
    case d
    then have "EncodeRune r = [0xE0 + nat (r div 4096), 0x80 + nat (r div 64 mod 64), 0x80 + nat (r mod 64)]"
      by (auto simp: EncodeRune_def)
    then show ?thesis using d DecodeRune_3 [of r bs] by (simp add: ValidRune_def)
  next
    case e
    then have "EncodeRune r = [0xF0 + nat (r div 262144), 0x80 + nat (r div 4096 mod 64),
         0x80 + nat (r div 64 mod 64), 0x80 + nat (r mod 64)]"
      by (auto simp: EncodeRune_def)
    then show ?thesis using e DecodeRune_4 [of r bs] by (simp add: ValidRune_def)
  qed
qed

lemma EncodeRune_nonempty: "EncodeRune r \<noteq> []"
  by (simp add: EncodeRune_def)

lemma runes_of_string_Encode:
  "runes_of_string (EncodeRune r @ bs) = (if ValidRune r then r else RuneError) # runes_of_string bs"
proof -
  obtain b rest where br: "EncodeRune r @ bs = b # rest"
    using EncodeRune_nonempty [of r] by (cases "EncodeRune r") auto
  have d: "DecodeRune (b # rest) = (if ValidRune r then r else RuneError, length (EncodeRune r))"
    using DecodeRune_EncodeRune [of r bs] br by simp
  have "runes_of_string (b # rest) =
          fst (DecodeRune (b # rest)) # runes_of_string (drop (snd (DecodeRune (b # rest))) (b # rest))"
    by (rule runes_of_string.simps)
  also have "\<dots> = (if ValidRune r then r else RuneError) # runes_of_string (drop (length (EncodeRune r)) (b # rest))"
    by (simp only: d fst_conv snd_conv)
  also have "drop (length (EncodeRune r)) (b # rest) = bs"
    by (simp add: br [symmetric])
  finally show ?thesis by (simp only: br)
qed

lemma runes_of_string_of_runes:
  "runes_of_string (string_of_runes rs) = map (\<lambda>r. if ValidRune r then r else RuneError) rs"
proof (induction rs)
  case Nil
  then show ?case by (simp add: string_of_runes_def runes_of_string.simps)
next
  case (Cons r rs)
  then show ?case
    using runes_of_string_Encode [of r "string_of_runes rs"] by (simp add: string_of_runes_def)
qed



subsection \<open>A space typed at the end of a line that is over the limit\<close>


lemma skip_trailing_only_lines:
  "skip_trailing y i e = e\<lparr>lines := lines (skip_trailing y i e)\<rparr>"
proof (induction y i e rule: skip_trailing.induct)
  case (1 y i e)
  show ?case
  proof (cases "i > y \<and> length (line_at e i) = 0")
    case True
    then have "skip_trailing y i e = skip_trailing y (i - 1) (e\<lparr>lines := (lines e)(i := None)\<rparr>)"
      by (subst skip_trailing.simps) simp
    moreover have "skip_trailing y (i - 1) (e\<lparr>lines := (lines e)(i := None)\<rparr>)
        = (e\<lparr>lines := (lines e)(i := None)\<rparr>)\<lparr>lines := lines (skip_trailing y (i - 1) (e\<lparr>lines := (lines e)(i := None)\<rparr>))\<rparr>"
      using True by (intro "1.IH") auto
    ultimately show ?thesis by simp
  next
    case False
    then have "skip_trailing y i e = e" by (subst skip_trailing.simps) auto
    then show ?thesis by simp
  qed
qed

subsection \<open>Two passes of WrapAllLinesAt over one sentence\<close>


lemma DataY_frame [simp]:
  "DataY (e\<lparr>lines := m\<rparr>) = DataY e" "DataY (e\<lparr>changed := b\<rparr>) = DataY e"
  by (simp_all add: DataY_def)

lemma dom_one: "dom [0 \<mapsto> (a :: rune list)] = {0..<(1::int)}"
  by auto

lemma dom_two: "dom [0 \<mapsto> (a :: rune list), 1 \<mapsto> b] = {0..<(2::int)}"
  by auto










subsection \<open>WrapAllLinesAt where no line is over the limit\<close>



subsection \<open>What Save writes and what Load reads back\<close>

lemma Len_dom_cong: "dom (lines e') = dom (lines e) \<Longrightarrow> Len e' = Len e"
  by (simp add: Len_def)

lemma trim_all_lines_lines:
  "lines (trim_all_lines i e) k =
     (if i \<le> k \<and> k < Len e
      then map_option (\<lambda>l. if \<forall>r\<in>set l. IsSpace r then l else rev (dropWhile IsSpace (rev l))) (lines e k)
      else lines e k)"
proof (induction i e rule: trim_all_lines.induct)
  case (1 i e)
  show ?case
  proof (cases "i < Len e")
    case False
    then show ?thesis by (subst trim_all_lines.simps) auto
  next
    case True
    have len: "Len (TrimRight i e) = Len e"
      using TrimRight_fields [of i e] by (intro Len_dom_cong) simp
    have step: "trim_all_lines i e = trim_all_lines (i + 1) (TrimRight i e)"
      using True by (subst trim_all_lines.simps) simp
    have tl: "lines (TrimRight i e) k =
        (if k = i then map_option (\<lambda>l. if \<forall>r\<in>set l. IsSpace r then l else rev (dropWhile IsSpace (rev l))) (lines e k)
         else lines e k)"
    proof (cases "lines e i")
      case None
      then show ?thesis by (simp add: TrimRight_def)
    next
      case (Some l)
      then show ?thesis using TrimRight_lines [OF Some] by simp
    qed
    show ?thesis
      unfolding step 1 [OF True] len tl using True by auto
  qed
qed

lemma trim_all_lines_dom: "dom (lines (trim_all_lines i e)) = dom (lines e)"
  by (auto simp: trim_all_lines_lines dom_def)

lemma string_of_runes_append: "string_of_runes (a @ b) = string_of_runes a @ string_of_runes b"
  by (simp add: string_of_runes_def)

lemma EncodeRune_LF: "EncodeRune 0x0A = [0x0A]"
  by (simp add: EncodeRune_def)

lemma string_of_runes_Nil: "string_of_runes [] = []"
  by (simp add: string_of_runes_def)

lemma string_of_runes_Cons: "string_of_runes (r # rs) = EncodeRune r @ string_of_runes rs"
  by (simp add: string_of_runes_def)

lemma Line_line_at: "Line e i = string_of_runes (line_at e i)"
  by (simp add: Line_def line_at_def string_of_runes_def split: option.splits)

lemma String_runes:
  "String e = string_of_runes (concat (map (\<lambda>i. line_at e i @ [0x0A]) [0 .. Len e - 1]))"
proof -
  have "concat (map (\<lambda>i. Line e i @ [0x0A]) is)
        = string_of_runes (concat (map (\<lambda>i. line_at e i @ [0x0A]) is))" for "is"
    by (induction "is")
      (simp_all add: string_of_runes_append string_of_runes_Cons string_of_runes_Nil EncodeRune_LF
         Line_line_at)
  then show ?thesis by (simp add: String_def)
qed

lemma chunks_Encode:
  "chunks (EncodeRune r @ bs) = ((if ValidRune r then r else RuneError), EncodeRune r) # chunks bs"
proof -
  obtain b rest where br: "EncodeRune r @ bs = b # rest"
    using EncodeRune_nonempty [of r] by (cases "EncodeRune r") auto
  have d: "DecodeRune (b # rest) = (if ValidRune r then r else RuneError, length (EncodeRune r))"
    using DecodeRune_EncodeRune [of r bs] br by simp
  have "chunks (b # rest) =
          (fst (DecodeRune (b # rest)), take (snd (DecodeRune (b # rest))) (b # rest))
            # chunks (drop (snd (DecodeRune (b # rest))) (b # rest))"
    by (rule chunks.simps)
  also have "\<dots> = ((if ValidRune r then r else RuneError), take (length (EncodeRune r)) (b # rest))
                     # chunks (drop (length (EncodeRune r)) (b # rest))"
    by (simp only: d fst_conv snd_conv)
  also have "drop (length (EncodeRune r)) (b # rest) = bs"
    by (simp add: br [symmetric])
  also have "take (length (EncodeRune r)) (b # rest) = EncodeRune r"
    by (simp add: br [symmetric])
  finally show ?thesis by (simp only: br)
qed

lemma chunks_string_of_runes:
  "chunks (string_of_runes rs) = map (\<lambda>r. ((if ValidRune r then r else RuneError), EncodeRune r)) rs"
proof (induction rs)
  case Nil
  then show ?case by (simp add: string_of_runes_def chunks.simps)
next
  case (Cons r rs)
  then show ?case
    using chunks_Encode [of r "string_of_runes rs"] by (simp add: string_of_runes_def)
qed

lemma IsSpace_sanitized: "IsSpace (if ValidRune r then r else RuneError) = IsSpace r"
  by (auto simp: IsSpace_def ValidRune_def RuneError_def)

lemma TrimRightFunc_string_of_runes:
  "TrimRightFunc IsSpace (string_of_runes rs) = string_of_runes (stripped rs)"
proof -
  let ?g = "\<lambda>r. ((if ValidRune r then r else RuneError), EncodeRune r)"
  have "dropWhile (\<lambda>c. IsSpace (fst c)) (map ?g xs) = map ?g (dropWhile IsSpace xs)" for xs
    by (induction xs) (simp_all add: IsSpace_sanitized)
  then have "dropWhile (\<lambda>c. IsSpace (fst c)) (rev (chunks (string_of_runes rs)))
             = map ?g (dropWhile IsSpace (rev rs))"
    by (simp only: chunks_string_of_runes rev_map)
  then have "TrimRightFunc IsSpace (string_of_runes rs)
             = concat (map snd (rev (map ?g (dropWhile IsSpace (rev rs)))))"
    by (simp only: TrimRightFunc_def)
  also have "\<dots> = string_of_runes (stripped rs)"
    by (simp add: stripped_def string_of_runes_def rev_map comp_def)
  finally show ?thesis .
qed

lemma Replace_all_skip:
  "a \<notin> set xs \<Longrightarrow> Replace_all (xs @ ys) [a, b] new = xs @ Replace_all ys [a, b] new"
  by (induction xs) (auto simp: Replace_all.simps)

lemma Replace_all_pair:
  "c \<noteq> b \<Longrightarrow> c \<noteq> a \<Longrightarrow> Replace_all ([a, c] @ ys) [a, b] new = [a, c] @ Replace_all ys [a, b] new"
  by (cases ys) (auto simp: Replace_all.simps)

lemma EncodeRune_no_NBSP:
  assumes "r \<noteq> 0xA0"
  shows "0xC2 \<notin> set (EncodeRune r) \<or> (\<exists>c. EncodeRune r = [0xC2, c] \<and> c \<noteq> 0xA0 \<and> c \<noteq> 0xC2)"
proof -
  consider (a) "0 \<le> r \<and> r \<le> 0x7F" | (b1) "0x80 \<le> r \<and> r \<le> 0xBF" | (b2) "0xC0 \<le> r \<and> r \<le> 0x7FF"
    | (c) "r < 0 \<or> r > 0x10FFFF \<or> (0xD800 \<le> r \<and> r \<le> 0xDFFF)"
    | (d) "0x800 \<le> r \<and> r \<le> 0xFFFF \<and> \<not> (0xD800 \<le> r \<and> r \<le> 0xDFFF)"
    | (e) "0x10000 \<le> r \<and> r \<le> 0x10FFFF"
    by linarith
  then show ?thesis
  proof cases
    case a
    then show ?thesis by (auto simp: EncodeRune_def)
  next
    case b1
    then have "r div 64 = 2" "r mod 64 = r - 128" by presburger+
    then show ?thesis using b1 assms by (auto simp: EncodeRune_def)
  next
    case b2
    then have "r div 64 \<ge> 3" by presburger
    moreover have "0 \<le> r mod 64" "r mod 64 < 64" by simp_all
    ultimately show ?thesis using b2 by (auto simp: EncodeRune_def)
  next
    case c
    then show ?thesis by (auto simp: EncodeRune_def)
  next
    case d
    have "0 \<le> r mod 64" "r mod 64 < 64" "0 \<le> r div 64 mod 64" "r div 64 mod 64 < 64" by simp_all
    moreover have "0 \<le> r div 4096" using d by (simp add: pos_imp_zdiv_nonneg_iff)
    ultimately show ?thesis using d by (auto simp: EncodeRune_def)
  next
    case e
    have "0 \<le> r mod 64" "r mod 64 < 64" "0 \<le> r div 64 mod 64" "r div 64 mod 64 < 64"
      "0 \<le> r div 4096 mod 64" "r div 4096 mod 64 < 64" by simp_all
    moreover have "0 \<le> r div 262144" using e by (simp add: pos_imp_zdiv_nonneg_iff)
    ultimately show ?thesis using e by (auto simp: EncodeRune_def)
  qed
qed

lemma Replace_all_NBSP_id:
  "0xA0 \<notin> set rs \<Longrightarrow> Replace_all (string_of_runes rs) [0xC2, 0xA0] [0x20] = string_of_runes rs"
proof (induction rs)
  case Nil
  then show ?case by (simp add: string_of_runes_def Replace_all.simps)
next
  case (Cons r rs)
  then have r: "r \<noteq> 0xA0" and IH: "Replace_all (string_of_runes rs) [0xC2, 0xA0] [0x20] = string_of_runes rs"
    by auto
  have s: "string_of_runes (r # rs) = EncodeRune r @ string_of_runes rs"
    by (simp add: string_of_runes_def)
  from EncodeRune_no_NBSP [OF r] show ?case
  proof
    assume "0xC2 \<notin> set (EncodeRune r)"
    then show ?thesis unfolding s using Replace_all_skip [of "0xC2" "EncodeRune r"] IH by simp
  next
    assume "\<exists>c. EncodeRune r = [0xC2, c] \<and> c \<noteq> 0xA0 \<and> c \<noteq> 0xC2"
    then obtain c where c: "EncodeRune r = [0xC2, c]" "c \<noteq> 0xA0" "c \<noteq> 0xC2" by blast
    show ?thesis unfolding s c(1) using Replace_all_pair [OF c(2) c(3), of "string_of_runes rs" "[0x20]"] IH
      by simp
  qed
qed

lemma EncodeRune_ascii:
  "b \<in> set (EncodeRune r) \<Longrightarrow> b < 0x80 \<Longrightarrow> r = int b"
  by (auto simp: EncodeRune_def split: if_splits)

lemma string_of_runes_ascii:
  "b < 0x80 \<Longrightarrow> int b \<notin> set rs \<Longrightarrow> b \<notin> set (string_of_runes rs)"
  using EncodeRune_ascii by (auto simp: string_of_runes_def)

lemma Split_no_sep: "sep \<notin> set a \<Longrightarrow> Split sep a = [a]"
  by (induction a) auto

lemma Split_append: "sep \<notin> set a \<Longrightarrow> Split sep (a @ sep # rest) = a # Split sep rest"
  by (induction a) auto

lemma stripped_append:
  "stripped (xs @ ys) = (if \<forall>r\<in>set ys. IsSpace r then stripped xs else xs @ stripped ys)"
  by (simp add: stripped_def dropWhile_append)

lemma stripped_id: "l \<noteq> [] \<Longrightarrow> \<not> IsSpace (last l) \<Longrightarrow> stripped l = l"
  by (cases l rule: rev_cases) (simp_all add: stripped_def)

lemma stripped_last: "stripped l = [] \<or> \<not> IsSpace (last (stripped l))"
  using hd_dropWhile [of IsSpace "rev l"] by (auto simp: stripped_def last_rev)

lemma IsSpace_LF: "IsSpace 0x0A"
  by (simp add: IsSpace_def)

lemma drop_trailing_empty_snoc: "drop_trailing_empty (ls @ [l]) = (if l = [] then drop_trailing_empty ls else ls @ [l])"
  by (simp add: drop_trailing_empty_def)

lemma join_lines_snoc: "join_lines (ls @ [l]) = join_lines ls @ l @ [0x0A]"
  by (simp add: join_lines_def)

lemma stripped_join_lines:
  "\<forall>l\<in>set ls. l = [] \<or> \<not> IsSpace (last l) \<Longrightarrow>
   stripped (join_lines ls) = (if drop_trailing_empty ls = [] then [] else join_lines (butlast (drop_trailing_empty ls)) @ last (drop_trailing_empty ls))"
proof (induction ls rule: rev_induct)
  case Nil
  then show ?case by (simp add: join_lines_def drop_trailing_empty_def stripped_def)
next
  case (snoc l ls)
  then have IH: "stripped (join_lines ls) = (if drop_trailing_empty ls = [] then [] else join_lines (butlast (drop_trailing_empty ls)) @ last (drop_trailing_empty ls))"
    and l: "l = [] \<or> \<not> IsSpace (last l)" by auto
  show ?case
  proof (cases "l = []")
    case True
    then have "stripped (join_lines (ls @ [l])) = stripped (join_lines ls)"
      by (simp add: join_lines_snoc stripped_append IsSpace_LF)
    then show ?thesis using IH True by (simp add: drop_trailing_empty_snoc)
  next
    case False
    then have nsp: "\<not> IsSpace (last l)" using l by simp
    then have "\<not> (\<forall>r\<in>set (l @ [0x0A]). IsSpace r)" using False last_in_set [of l] by auto
    then have "stripped (join_lines (ls @ [l])) = join_lines ls @ stripped (l @ [0x0A])"
      unfolding join_lines_snoc by (subst stripped_append) (auto simp: IsSpace_LF)
    also have "stripped (l @ [0x0A]) = l"
      using stripped_id [OF False nsp] by (simp add: stripped_append IsSpace_LF)
    finally show ?thesis using False by (simp add: drop_trailing_empty_snoc)
  qed
qed

lemma join_lines_butlast_last: "xs \<noteq> [] \<Longrightarrow> join_lines (butlast xs) @ last xs @ [0x0A] = join_lines xs"
  using join_lines_snoc [of "butlast xs" "last xs"] by simp

lemma Split_join_lines:
  "\<forall>l\<in>set ls. 0x0A \<notin> set l \<Longrightarrow>
   Split 0x0A (string_of_runes (join_lines ls)) = map string_of_runes ls @ [[]]"
proof (induction ls)
  case Nil
  then show ?case by (simp add: join_lines_def string_of_runes_Nil)
next
  case (Cons l ls)
  then have "0x0A \<notin> set l" by simp
  then have nl: "0x0A \<notin> set (string_of_runes l)"
    using string_of_runes_ascii [of "0x0A" l] by simp
  have "string_of_runes (join_lines (l # ls)) = string_of_runes l @ 0x0A # string_of_runes (join_lines ls)"
    by (simp add: join_lines_def string_of_runes_append string_of_runes_Cons EncodeRune_LF)
  then show ?case using Split_append [OF nl] Cons by simp
qed

lemma fill_spaces_at_end: "fill_spaces (int (length l)) l = l @ [0x20]"
proof -
  have "fill_spaces (int (length l)) l = fill_spaces (int (length l)) (l @ [0x20])"
    by (subst fill_spaces.simps) simp
  also have "\<dots> = l @ [0x20]"
    by (subst fill_spaces.simps) simp
  finally show ?thesis .
qed

lemma Set_at_end:
  assumes "line_at e y = pre" and "x = int (length pre)"
  shows "\<exists>e'. Set x y r e = Returns e' \<and> lines e' = (lines e)(y \<mapsto> pre @ [r])"
proof (cases "lines e y")
  case None
  then have "pre = []" "x = 0" using assms by (simp_all add: line_at_def)
  then show ?thesis using None fill_spaces_at_end [of "[]"]
    by (simp add: Set_def line_at_def Let_def)
next
  case (Some l)
  then have "pre = l" using assms by (simp add: line_at_def)
  then show ?thesis using Some assms(2) fill_spaces_at_end [of l]
    by (simp add: Set_def line_at_def Let_def)
qed

lemma set_runes_append:
  "line_at e y = pre \<Longrightarrow> c = int (length pre) \<Longrightarrow> rs \<noteq> [] \<Longrightarrow>
   \<exists>e'. set_runes rs c y e = Returns e' \<and> lines e' = (lines e)(y \<mapsto> pre @ rs)"
proof (induction rs arbitrary: e pre c)
  case Nil
  then show ?case by simp
next
  case (Cons r rs)
  obtain e1 where e1: "Set c y r e = Returns e1" "lines e1 = (lines e)(y \<mapsto> pre @ [r])"
    using Set_at_end [OF Cons.prems(1) Cons.prems(2)] by blast
  have step: "set_runes (r # rs) c y e = set_runes rs (c + 1) y e1"
    using e1(1) by (simp add: and_then_def)
  show ?case
  proof (cases "rs = []")
    case True
    then show ?thesis using step e1(2) by (auto simp: fun_eq_iff)
  next
    case False
    have la: "line_at e1 y = pre @ [r]" using e1(2) by (simp add: line_at_def)
    have c: "c + 1 = int (length (pre @ [r]))" using Cons.prems(2) by simp
    obtain e' where "set_runes rs (c + 1) y e1 = Returns e'"
      "lines e' = (lines e1)(y \<mapsto> (pre @ [r]) @ rs)"
      using Cons.IH [OF la c False] by blast
    then show ?thesis using step e1(2) by (auto simp: fun_eq_iff)
  qed
qed

lemma nth_or_Cons: "nth_or (l # ls) k = (if k = 0 then l else nth_or ls (k - 1))"
  by (auto simp: nth_or_def nat_diff_distrib' nth_Cons split: nat.splits)

lemma nth_or_neg: "k < 0 \<Longrightarrow> nth_or ls k = []"
  by (simp add: nth_or_def)

lemma nth_or_snoc_empty: "nth_or (ls @ [[]]) k = nth_or ls k"
  by (auto simp: nth_or_def nth_append)

lemma nth_or_drop_trailing_empty: "nth_or (drop_trailing_empty ls) k = nth_or ls k"
  by (induction ls rule: rev_induct) (simp_all add: drop_trailing_empty_snoc nth_or_snoc_empty, simp add: drop_trailing_empty_def)

lemma runes_of_string_valid:
  "\<forall>r\<in>set l. ValidRune r \<Longrightarrow> runes_of_string (string_of_runes l) = l"
  by (simp add: runes_of_string_of_runes map_idI)

lemma load_lines_lines:
  "\<forall>l\<in>set ls. \<forall>r\<in>set l. ValidRune r \<Longrightarrow> \<forall>k\<ge>y. lines e k = None \<Longrightarrow>
   \<exists>e'. load_lines (map string_of_runes ls) y e = Returns e'
        \<and> lines e' = (\<lambda>k. if y \<le> k \<and> nth_or ls (k - y) \<noteq> [] then Some (nth_or ls (k - y)) else lines e k)"
proof (induction ls arbitrary: y e)
  case Nil
  then show ?case by (auto simp: nth_or_def fun_eq_iff)
next
  case (Cons l ls)
  have valid: "\<forall>r\<in>set l. ValidRune r" and valid': "\<forall>l\<in>set ls. \<forall>r\<in>set l. ValidRune r"
    using Cons.prems(1) by auto
  have rl: "runes_of_string (string_of_runes l) = l"
    using valid by (rule runes_of_string_valid)
  have "\<exists>e1. set_runes l 0 y e = Returns e1
          \<and> lines e1 = (if l = [] then lines e else (lines e)(y \<mapsto> l))"
  proof (cases "l = []")
    case True
    then show ?thesis by simp
  next
    case False
    have "line_at e y = []" using Cons.prems(2) by (simp add: line_at_def)
    then show ?thesis using set_runes_append [of e y "[]" 0 l] False by simp
  qed
  then obtain e1 where e1: "set_runes l 0 y e = Returns e1"
    "lines e1 = (if l = [] then lines e else (lines e)(y \<mapsto> l))" by blast
  have none: "\<forall>k\<ge>y + 1. lines e1 k = None" using e1(2) Cons.prems(2) by auto
  obtain e' where e': "load_lines (map string_of_runes ls) (y + 1) e1 = Returns e'"
    "lines e' = (\<lambda>k. if y + 1 \<le> k \<and> nth_or ls (k - (y + 1)) \<noteq> [] then Some (nth_or ls (k - (y + 1))) else lines e1 k)"
    using Cons.IH [OF valid' none] by blast
  have "load_lines (map string_of_runes (l # ls)) y e = Returns e'"
    using e1(1) e'(1) rl by (simp add: and_then_def)
  moreover have "lines e' = (\<lambda>k. if y \<le> k \<and> nth_or (l # ls) (k - y) \<noteq> [] then Some (nth_or (l # ls) (k - y)) else lines e k)"
  proof
    fix k
    have d: "k - (y + 1) = k - y - 1" by simp
    show "lines e' k = (if y \<le> k \<and> nth_or (l # ls) (k - y) \<noteq> [] then Some (nth_or (l # ls) (k - y)) else lines e k)"
      unfolding e'(2) e1(2) nth_or_Cons d
      using nth_or_neg [of "k - y - 1" ls] Cons.prems(2) by (cases "k = y") auto
  qed
  ultimately show ?case by blast
qed

lemma stripped_Nil: "stripped [] = []"
  by (simp add: stripped_def)

lemma set_strip: "set (stripped l) \<subseteq> set l"
  using set_dropWhileD [of _ IsSpace "rev l"] by (auto simp: stripped_def)

lemma set_drop_trailing_empty: "set (drop_trailing_empty ls) \<subseteq> set ls"
  using set_dropWhileD [of _ "\<lambda>l. l = []" "rev ls"] by (auto simp: drop_trailing_empty_def)

lemma set_join_lines: "set (join_lines ls) \<subseteq> insert 0x0A (\<Union> (set ` set ls))"
  by (auto simp: join_lines_def)

lemma nth_or_upto: "nth_or (map L [0 .. N - 1]) k = (if 0 \<le> k \<and> k < N then L k else [])"
  by (auto simp: nth_or_def nth_upto)

lemma string_of_runes_stripped_last:
  "string_of_runes (stripped rs) = [] \<or> last (string_of_runes (stripped rs)) \<noteq> 0x0A"
proof (cases "stripped rs = []")
  case True
  then show ?thesis by (simp add: string_of_runes_Nil)
next
  case False
  then have nsp: "\<not> IsSpace (last (stripped rs))" using stripped_last [of rs] by simp
  obtain xs where xs: "stripped rs = xs @ [last (stripped rs)]"
    using False append_butlast_last_id [of "stripped rs"] by metis
  have "string_of_runes (stripped rs) = string_of_runes xs @ EncodeRune (last (stripped rs))"
    by (subst xs) (simp add: string_of_runes_append string_of_runes_Cons string_of_runes_Nil)
  then have "last (string_of_runes (stripped rs)) \<in> set (EncodeRune (last (stripped rs)))"
    using EncodeRune_nonempty [of "last (stripped rs)"] by simp
  then have "last (string_of_runes (stripped rs)) = 0x0A \<Longrightarrow> last (stripped rs) = 0x0A"
    using EncodeRune_ascii [of "0x0A" "last (stripped rs)"] by simp
  then show ?thesis using nsp IsSpace_LF by auto
qed

section \<open>The claims\<close>

text \<open>
  C1. Starting from a dense document, every line-structure mutation should leave the
  document dense: every index below \<open>Len\<close> has an entry. \<open>DeleteLine\<close> breaks this on
  the one-line document: it takes the early "end of document" return, which removes the
  only entry and skips \<open>MakeConsistent\<close>; the map is then empty, \<open>Len\<close> still answers 1,
  and index 0 has no entry.
\<close>

theorem DeleteLine_only_line_not_dense:
  "dense (e\<lparr>lines := [0 \<mapsto> [0x61]]\<rparr>)
   \<and> DeleteLine 0 (e\<lparr>lines := [0 \<mapsto> [0x61]]\<rparr>) = Returns (e\<lparr>lines := Map.empty\<rparr>)
   \<and> Len (e\<lparr>lines := Map.empty\<rparr>) = 1
   \<and> \<not> dense (e\<lparr>lines := Map.empty\<rparr>)"
  by (auto simp: dense_def DeleteLine_def Len_Max intro: exI [of _ 0])

theorem DeleteLine_only_line_not_dense_witness:
  "dense ((NewEditor True modeBlank)\<lparr>lines := [0 \<mapsto> [0x61]]\<rparr>)
   \<and> DeleteLine 0 ((NewEditor True modeBlank)\<lparr>lines := [0 \<mapsto> [0x61]]\<rparr>)
       = Returns ((NewEditor True modeBlank)\<lparr>lines := Map.empty\<rparr>)
   \<and> \<not> dense ((NewEditor True modeBlank)\<lparr>lines := Map.empty\<rparr>)"
  using DeleteLine_only_line_not_dense [where e = "NewEditor True modeBlank"] by simp

text \<open>
  C2. Saving a document under a name that ends in neither \<open>.ico\<close> nor \<open>.png\<close> and
  loading the file again should give the document back, up to the trailing white space of
  each line and the single line feed at the end of the file. \<open>Save\<close> also replaces
  every no-break space (the bytes \<open>C2 A0\<close>) by a space: the one-line document
  \<open>a\<close>, \<open>U+00A0\<close>, \<open>b\<close> is written as \<open>"a b"\<close> and a line feed, and read back as
  \<open>"a b"\<close>, though the line has no trailing white space to strip.
\<close>

theorem Save_Load_nbsp_becomes_space:
  "\<exists>e1 fs1 message e2.
      Save (\<lambda>m. []) (\<lambda>m. []) \<lparr>files = Map.empty, creatable = (\<lambda>n. True)\<rparr> ''a.txt'' False nbsp_doc
        = (e1, None, fs1)
    \<and> files fs1 ''a.txt'' = Some [0x61, 0x20, 0x62, 0x0A]
    \<and> Load (\<lambda>fs n a b. (0, [], [], None)) fs1 ''a.txt'' nbsp_doc = Returns (message, None, e2)
    \<and> lines e2 0 = Some [0x61, 0x20, 0x62]
    \<and> stripped (line_at nbsp_doc 0) = [0x61, 0xA0, 0x62]"
proof -
  let ?fs = "\<lparr>files = Map.empty, creatable = (\<lambda>n. True)\<rparr>"
  let ?fs1 = "\<lparr>files = [''a.txt'' \<mapsto> [0x61, 0x20, 0x62, 0x0A]], creatable = (\<lambda>n. True)\<rparr>"
  define et where "et = trim_all_lines 0 nbsp_doc"
  have len: "Len nbsp_doc = 1" by (simp add: Len_Max nbsp_doc_def)
  have "lines et k = lines nbsp_doc k" for k
    by (simp add: et_def trim_all_lines_lines len) (simp add: nbsp_doc_def IsSpace_def)
  then have et_lines: "lines et = [0 \<mapsto> [0x61, 0xA0, 0x62]]"
    by (simp add: fun_eq_iff nbsp_doc_def)
  have et_len: "Len et = 1" by (simp add: Len_Max et_lines)
  have "String et = string_of_runes [0x61, 0xA0, 0x62, 0x0A]"
    by (simp add: String_runes et_len line_at_def et_lines)
  then have "TrimRightFunc IsSpace (String et) = string_of_runes (stripped [0x61, 0xA0, 0x62, 0x0A])"
    by (simp only: TrimRightFunc_string_of_runes)
  also have "stripped [0x61, 0xA0, 0x62, 0x0A] = [0x61, 0xA0, 0x62]"
    by (simp add: stripped_def IsSpace_def)
  also have "string_of_runes [0x61, 0xA0, 0x62] = [0x61, 0xC2, 0xA0, 0x62]"
    by (simp add: string_of_runes_def EncodeRune_def)
  finally have T: "TrimRightFunc IsSpace (String et) = [0x61, 0xC2, 0xA0, 0x62]" .
  have Rep: "Replace_all [0x61, 0xC2, 0xA0, 0x62] [0xC2, 0xA0] [0x20] = [0x61, 0x20, 0x62]"
    by (simp add: Replace_all.simps)
  have save: "Save (\<lambda>m. []) (\<lambda>m. []) ?fs ''a.txt'' False nbsp_doc = (et\<lparr>changed := False\<rparr>, None, ?fs1)"
    by (simp add: Save_def HasSuffix_def Let_def WriteFile_def et_def [symmetric] T Rep)
  have valid: "\<forall>l\<in>set [[0x61, 0x20, 0x62], []]. \<forall>r\<in>set l. ValidRune r"
    by (simp add: ValidRune_def)
  have clear: "\<forall>k\<ge>0. lines (Clear nbsp_doc) k = None" by (simp add: Clear_def)
  obtain e' where e': "load_lines (map string_of_runes [[0x61, 0x20, 0x62], []]) 0 (Clear nbsp_doc) = Returns e'"
    "lines e' = (\<lambda>k. if 0 \<le> k \<and> nth_or [[0x61, 0x20, 0x62], []] (k - 0) \<noteq> []
                      then Some (nth_or [[0x61, 0x20, 0x62], []] (k - 0)) else lines (Clear nbsp_doc) k)"
    using load_lines_lines [OF valid clear] by blast
  have m: "map string_of_runes [[0x61, 0x20, 0x62], []] = [[0x61, 0x20, 0x62], []]"
    by (simp add: string_of_runes_def EncodeRune_def)
  have load: "Load (\<lambda>fs n a b. (0, [], [], None)) ?fs1 ''a.txt'' nbsp_doc = Returns ([], None, e'\<lparr>changed := False\<rparr>)"
    using e'(1) unfolding m by (simp add: Load_def HasSuffix_def and_then_def)
  have l0: "lines (e'\<lparr>changed := False\<rparr>) 0 = Some [0x61, 0x20, 0x62]"
    by (simp add: e'(2) nth_or_def)
  have s: "stripped (line_at nbsp_doc 0) = [0x61, 0xA0, 0x62]"
    by (simp add: line_at_def nbsp_doc_def stripped_def IsSpace_def)
  show ?thesis using save load l0 s by simp
qed

text \<open>
  C2, for documents that the file format can hold. Take a document with finitely many
  lines, none at a negative index, where every line that is not empty has a rune that is
  not white space and where no line, its trailing white space apart, holds a line feed, a
  carriage return, a no-break space or a rune that is not a Unicode scalar value. For a
  name that ends in neither \<open>.ico\<close> nor \<open>.png\<close> and that can be created, \<open>Save\<close>
  returns no error and writes a file that ends in a line feed with no second line feed
  before it; \<open>Load\<close> of that file, into any editor, returns no error, and the document it
  leaves has, at every index, the line of the original without its trailing white space,
  and no entry where that is empty.
\<close>

theorem Save_Load_round_trip:
  assumes fin: "finite (dom (lines e))"
    and nonneg: "\<forall>k\<in>dom (lines e). 0 \<le> k"
    and runes: "\<forall>k l. lines e k = Some l \<longrightarrow>
                  (l \<noteq> [] \<longrightarrow> (\<exists>r\<in>set l. \<not> IsSpace r))
                  \<and> (\<forall>r\<in>set (stripped l). ValidRune r \<and> r \<noteq> 0x0A \<and> r \<noteq> 0x0D \<and> r \<noteq> 0xA0)"
    and name: "\<not> HasSuffix filename ''.ico''" "\<not> HasSuffix filename ''.png''"
    and creat: "creatable fs filename"
  shows "\<exists>e1 fs1 message e2.
           Save png_Encode EncodeGrayscale4bit fs filename asOther e = (e1, None, fs1)
         \<and> (\<exists>body. files fs1 filename = Some (body @ [0x0A]) \<and> (body = [] \<or> last body \<noteq> 0x0A))
         \<and> Load ReadFavicon fs1 filename e0 = Returns (message, None, e2)
         \<and> (\<forall>y. lines e2 y = (if stripped (line_at e y) = [] then None else Some (stripped (line_at e y))))"
proof -
  define N where "N = Len e"
  define L where "L = (\<lambda>i. stripped (line_at e i))"
  define ls where "ls = map L [0 .. N - 1]"
  define et where "et = trim_all_lines 0 e"
  have keys: "0 \<le> k \<and> k < N" if "k \<in> dom (lines e)" for k
  proof -
    have "k \<le> Max (insert 0 (dom (lines e)))" using fin that by simp
    then show ?thesis using nonneg that Len_Max [OF fin] by (simp add: N_def)
  qed
  have absent: "L k = []" if "\<not> (0 \<le> k \<and> k < N)" for k
  proof -
    have "lines e k = None" using keys [of k] that by blast
    then show ?thesis by (simp add: L_def line_at_def stripped_Nil)
  qed
  have Lvalid: "ValidRune r \<and> r \<noteq> 0x0A \<and> r \<noteq> 0x0D \<and> r \<noteq> 0xA0" if "r \<in> set (L i)" for i r
  proof (cases "lines e i")
    case None
    then show ?thesis using that by (simp add: L_def line_at_def stripped_Nil)
  next
    case (Some l)
    then show ?thesis using that runes by (simp add: L_def line_at_def)
  qed
  have et_line: "line_at et i = L i" for i
  proof (cases "lines e i")
    case None
    then show ?thesis by (simp add: et_def line_at_def trim_all_lines_lines L_def stripped_Nil)
  next
    case (Some l)
    then have r: "0 \<le> i \<and> i < Len e" using keys [of i] by (auto simp: N_def)
    have "(if \<forall>r\<in>set l. IsSpace r then l else rev (dropWhile IsSpace (rev l))) = stripped l"
    proof (cases "\<forall>r\<in>set l. IsSpace r")
      case True
      then have "l = []" using runes Some by blast
      then show ?thesis by (simp add: stripped_Nil)
    next
      case False
      then show ?thesis by (auto simp: stripped_def)
    qed
    then show ?thesis using Some r
      by (simp add: et_def line_at_def trim_all_lines_lines L_def)
  qed
  have et_Len: "Len et = N"
    unfolding et_def N_def by (rule Len_dom_cong) (rule trim_all_lines_dom)
  have S: "String et = string_of_runes (join_lines ls)"
    by (simp add: String_runes et_Len et_line join_lines_def ls_def comp_def)
  define R where "R = stripped (join_lines ls)"
  have T: "TrimRightFunc IsSpace (String et) = string_of_runes R"
    by (simp add: S TrimRightFunc_string_of_runes R_def)
  have ls_last: "\<forall>l\<in>set ls. l = [] \<or> \<not> IsSpace (last l)"
    using stripped_last by (auto simp: ls_def L_def)
  define ls2 where "ls2 = (if drop_trailing_empty ls = [] then [[]] else drop_trailing_empty ls)"
  have R10: "R @ [0x0A] = join_lines ls2"
  proof (cases "drop_trailing_empty ls = []")
    case True
    then show ?thesis using stripped_join_lines [OF ls_last] by (simp add: R_def ls2_def join_lines_def)
  next
    case False
    then show ?thesis using stripped_join_lines [OF ls_last] join_lines_butlast_last [OF False]
      by (simp add: R_def ls2_def)
  qed
  have ls_runes: "ValidRune r \<and> r \<noteq> 0x0A \<and> r \<noteq> 0x0D \<and> r \<noteq> 0xA0" if "l \<in> set ls" "r \<in> set l" for l r
    using that Lvalid by (auto simp: ls_def)
  have ls2_runes: "ValidRune r \<and> r \<noteq> 0x0A \<and> r \<noteq> 0x0D \<and> r \<noteq> 0xA0" if "l \<in> set ls2" "r \<in> set l" for l r
  proof -
    have "l \<in> set ls" using that set_drop_trailing_empty [of ls] by (auto simp: ls2_def split: if_splits)
    then show ?thesis using ls_runes that(2) by blast
  qed
  have join_runes: "r \<noteq> 0x0D \<and> r \<noteq> 0xA0" if "r \<in> set (join_lines ls2)" for r
  proof -
    from that set_join_lines [of ls2] have "r = 0x0A \<or> (\<exists>l\<in>set ls2. r \<in> set l)" by auto
    then show ?thesis using ls2_runes by auto
  qed
  have "set R \<subseteq> set (R @ [0x0A])" by auto
  then have "set R \<subseteq> set (join_lines ls2)" by (simp only: R10)
  then have "0xA0 \<notin> set R" using join_runes by blast
  then have Rep: "Replace_all (string_of_runes R) [0xC2, 0xA0] [0x20] = string_of_runes R"
    by (rule Replace_all_NBSP_id)
  define data where "data = string_of_runes (join_lines ls2)"
  have data': "string_of_runes R @ [0x0A] = data"
    using R10 [symmetric]
    by (simp add: data_def string_of_runes_append string_of_runes_Cons string_of_runes_Nil EncodeRune_LF)
  define fs1 where "fs1 = fs\<lparr>files := (files fs)(filename \<mapsto> data)\<rparr>"
  have save: "Save png_Encode EncodeGrayscale4bit fs filename asOther e = (et\<lparr>changed := False\<rparr>, None, fs1)"
    unfolding Save_def using name creat
    by (simp add: Let_def WriteFile_def et_def [symmetric] T Rep data' fs1_def)
  have "0x0D \<notin> set (join_lines ls2)" using join_runes by blast
  then have no13: "0x0D \<notin> set data"
    unfolding data_def using string_of_runes_ascii [of "0x0D" "join_lines ls2"] by simp
  have "\<forall>l\<in>set ls2. 0x0A \<notin> set l" using ls2_runes by blast
  then have split: "Split 0x0A data = map string_of_runes (ls2 @ [[]])"
    unfolding data_def using Split_join_lines [of ls2] by (simp add: string_of_runes_Nil)
  have valid3: "\<forall>l\<in>set (ls2 @ [[]]). \<forall>r\<in>set l. ValidRune r" using ls2_runes by auto
  have clear: "\<forall>k\<ge>0. lines (Clear e0) k = None" by (simp add: Clear_def)
  obtain e' where e': "load_lines (map string_of_runes (ls2 @ [[]])) 0 (Clear e0) = Returns e'"
    "lines e' = (\<lambda>k. if 0 \<le> k \<and> nth_or (ls2 @ [[]]) (k - 0) \<noteq> []
                      then Some (nth_or (ls2 @ [[]]) (k - 0)) else lines (Clear e0) k)"
    using load_lines_lines [OF valid3 clear] by blast
  have load: "Load ReadFavicon fs1 filename e0 = Returns ([], None, e'\<lparr>changed := False\<rparr>)"
    unfolding Load_def using name no13 split e'(1)
    by (simp add: fs1_def and_then_def)
  have nth: "nth_or (ls2 @ [[]]) k = L k" for k
  proof -
    have "nth_or (ls2 @ [[]]) k = nth_or ls2 k" by (rule nth_or_snoc_empty)
    also have "\<dots> = nth_or (drop_trailing_empty ls) k" by (auto simp: ls2_def nth_or_def)
    also have "\<dots> = nth_or ls k" by (rule nth_or_drop_trailing_empty)
    also have "\<dots> = L k" using absent [of k] by (simp add: ls_def nth_or_upto)
    finally show ?thesis .
  qed
  have "lines (e'\<lparr>changed := False\<rparr>) y
          = (if stripped (line_at e y) = [] then None else Some (stripped (line_at e y)))" for y
    using absent [of y] by (auto simp: e'(2) nth Clear_def L_def)
  moreover have "\<exists>body. files fs1 filename = Some (body @ [0x0A]) \<and> (body = [] \<or> last body \<noteq> 0x0A)"
  proof -
    have "files fs1 filename = Some (string_of_runes R @ [0x0A])"
      by (simp add: fs1_def data')
    moreover have "string_of_runes R = [] \<or> last (string_of_runes R) \<noteq> 0x0A"
      unfolding R_def by (rule string_of_runes_stripped_last)
    ultimately show ?thesis by blast
  qed
  ultimately show ?thesis using save load by blast
qed

theorem Save_Load_round_trip_witness:
  "\<exists>e1 fs1 message e2.
      Save (\<lambda>m. []) (\<lambda>m. []) \<lparr>files = Map.empty, creatable = (\<lambda>n. True)\<rparr> ''a.txt'' False round_trip_doc
        = (e1, None, fs1)
    \<and> Load (\<lambda>fs n a b. (0, [], [], None)) fs1 ''a.txt'' round_trip_doc = Returns (message, None, e2)
    \<and> lines e2 = [0 \<mapsto> [0x61, 0x62], 2 \<mapsto> [0x63]]"
proof -
  have fin: "finite (dom (lines round_trip_doc))" by (simp add: round_trip_doc_def)
  have nonneg: "\<forall>k\<in>dom (lines round_trip_doc). 0 \<le> k" by (simp add: round_trip_doc_def)
  have runes: "\<forall>k l. lines round_trip_doc k = Some l \<longrightarrow>
                  (l \<noteq> [] \<longrightarrow> (\<exists>r\<in>set l. \<not> IsSpace r))
                  \<and> (\<forall>r\<in>set (stripped l). ValidRune r \<and> r \<noteq> 0x0A \<and> r \<noteq> 0x0D \<and> r \<noteq> 0xA0)"
    by (auto simp: round_trip_doc_def stripped_def IsSpace_def ValidRune_def split: if_splits)
  have name: "\<not> HasSuffix ''a.txt'' ''.ico''" "\<not> HasSuffix ''a.txt'' ''.png''"
    by (simp_all add: HasSuffix_def)
  have s: "(if stripped (line_at round_trip_doc y) = [] then None else Some (stripped (line_at round_trip_doc y)))
           = [0 \<mapsto> [0x61, 0x62], 2 \<mapsto> [0x63]] y" for y
    by (auto simp: round_trip_doc_def line_at_def stripped_def IsSpace_def)
  show ?thesis
    using Save_Load_round_trip [OF fin nonneg runes name, where fs = "\<lparr>files = Map.empty, creatable = (\<lambda>n. True)\<rparr>"
        and png_Encode = "\<lambda>m. []" and EncodeGrayscale4bit = "\<lambda>m. []" and asOther = False
        and ReadFavicon = "\<lambda>fs n a b. (0, [], [], None)" and ?e0.0 = round_trip_doc]
    unfolding s by (auto simp: fun_eq_iff)
qed

text \<open>
  C3. On the document \<open>["ab", "cd"]\<close> with the cursor on the last rune of line 0
  (screen column 1, which \<open>AtEndOfLine\<close> calls the end of the line), \<open>Delete\<close> does
  not produce \<open>["abcd"]\<close>: it takes the branch for "at or past the last index", cuts the
  line before the cursor and then appends the next line, which gives \<open>["acd"]\<close>.
\<close>

theorem Delete_on_last_rune:
  "Delete [] ((NewEditor True modeBlank)\<lparr>lines := [0 \<mapsto> [0x61, 0x62], 1 \<mapsto> [0x63, 0x64]],
                 pos := \<lparr>sx = 1, sy = 0, offset = 0, savedX = 0\<rparr>\<rparr>)
     = Returns ((NewEditor True modeBlank)\<lparr>lines := [0 \<mapsto> [0x61, 0x63, 0x64]],
                  pos := \<lparr>sx = 1, sy = 0, offset = 0, savedX = 0\<rparr>, changed := True\<rparr>)"
  by (simp add: Delete_def DataY_def DataX_def line_at_def DeleteLine_def Len_Max and_then_def
        Let_def NewEditor_def)

text \<open>
  C3, with the cursor position made exact. On the document \<open>["ab", "cd"]\<close> with the cursor
  just past the last rune of line 0 (screen column 2, where \<open>End\<close> puts it), \<open>Delete\<close>
  joins the two lines into \<open>["abcd"]\<close>, a document of length 1. On the document
  \<open>["abc"]\<close> with the cursor at column 3 and no following line, \<open>Delete\<close> leaves the
  line as it is and removes no line. Both hold in text mode and in draw mode, whatever the
  backing arrays hold past the lines, and for the \<open>Delete\<close> of editor.go at any tab width.
\<close>

theorem Delete_joins_lines:
  "Delete spare (e\<lparr>lines := [0 \<mapsto> [0x61, 0x62], 1 \<mapsto> [0x63, 0x64]],
              pos := \<lparr>sx = 2, sy = 0, offset = 0, savedX = s\<rparr>\<rparr>)
     = Returns (e\<lparr>lines := [0 \<mapsto> [0x61, 0x62, 0x63, 0x64]],
                  pos := \<lparr>sx = 2, sy = 0, offset = 0, savedX = s\<rparr>, changed := True\<rparr>)
   \<and> Len (e\<lparr>lines := [0 \<mapsto> [0x61, 0x62, 0x63, 0x64]]\<rparr>) = 1
   \<and> Delete spare (e\<lparr>lines := [0 \<mapsto> [0x61, 0x62, 0x63]],
                pos := \<lparr>sx = 3, sy = 0, offset = 0, savedX = s\<rparr>\<rparr>)
     = Returns (e\<lparr>lines := [0 \<mapsto> [0x61, 0x62, 0x63]],
                  pos := \<lparr>sx = 3, sy = 0, offset = 0, savedX = s\<rparr>, changed := True\<rparr>)
   \<and> Delete_editor_go spacesPerTab spare
        (e\<lparr>lines := [0 \<mapsto> [0x61, 0x62], 1 \<mapsto> [0x63, 0x64]],
              pos := \<lparr>sx = 2, sy = 0, offset = 0, savedX = s\<rparr>\<rparr>)
     = Returns (e\<lparr>lines := [0 \<mapsto> [0x61, 0x62, 0x63, 0x64]],
                  pos := \<lparr>sx = 2, sy = 0, offset = 0, savedX = s\<rparr>, changed := True\<rparr>)
   \<and> Delete_editor_go spacesPerTab spare
        (e\<lparr>lines := [0 \<mapsto> [0x61, 0x62, 0x63]],
                pos := \<lparr>sx = 3, sy = 0, offset = 0, savedX = s\<rparr>\<rparr>)
     = Returns (e\<lparr>lines := [0 \<mapsto> [0x61, 0x62, 0x63]],
                  pos := \<lparr>sx = 3, sy = 0, offset = 0, savedX = s\<rparr>, changed := True\<rparr>)"
proof -
  have a: "Delete spare (e\<lparr>lines := [0 \<mapsto> [0x61, 0x62], 1 \<mapsto> [0x63, 0x64]],
              pos := \<lparr>sx = 2, sy = 0, offset = 0, savedX = s\<rparr>\<rparr>)
     = Returns (e\<lparr>lines := [0 \<mapsto> [0x61, 0x62, 0x63, 0x64]],
                  pos := \<lparr>sx = 2, sy = 0, offset = 0, savedX = s\<rparr>, changed := True\<rparr>)"
    by (simp add: Delete_def DataY_def DataX_def line_at_def DeleteLine_def Len_Max and_then_def
          Let_def)
  have b: "Len (e\<lparr>lines := [0 \<mapsto> [0x61, 0x62, 0x63, 0x64]]\<rparr>) = 1"
    by (simp add: Len_Max)
  have c: "Delete spare (e\<lparr>lines := [0 \<mapsto> [0x61, 0x62, 0x63]],
                pos := \<lparr>sx = 3, sy = 0, offset = 0, savedX = s\<rparr>\<rparr>)
     = Returns (e\<lparr>lines := [0 \<mapsto> [0x61, 0x62, 0x63]],
                  pos := \<lparr>sx = 3, sy = 0, offset = 0, savedX = s\<rparr>, changed := True\<rparr>)"
    by (simp add: Delete_def DataY_def DataX_def line_at_def DeleteLine_def Len_Max and_then_def
          Let_def)
  have d: "Delete_editor_go spacesPerTab spare
        (e\<lparr>lines := [0 \<mapsto> [0x61, 0x62], 1 \<mapsto> [0x63, 0x64]],
              pos := \<lparr>sx = 2, sy = 0, offset = 0, savedX = s\<rparr>\<rparr>)
     = Returns (e\<lparr>lines := [0 \<mapsto> [0x61, 0x62, 0x63, 0x64]],
                  pos := \<lparr>sx = 2, sy = 0, offset = 0, savedX = s\<rparr>, changed := True\<rparr>)"
    by (simp add: Delete_editor_go_def DataY_editor_go_def DataX_tabs_def DataX_tabs_scan_no_tab
          DataX_scan_eq line_at_def DeleteLine_editor_go_def Len_Max and_then_def Let_def)
  have f: "Delete_editor_go spacesPerTab spare
        (e\<lparr>lines := [0 \<mapsto> [0x61, 0x62, 0x63]],
                pos := \<lparr>sx = 3, sy = 0, offset = 0, savedX = s\<rparr>\<rparr>)
     = Returns (e\<lparr>lines := [0 \<mapsto> [0x61, 0x62, 0x63]],
                  pos := \<lparr>sx = 3, sy = 0, offset = 0, savedX = s\<rparr>, changed := True\<rparr>)"
    by (simp add: Delete_editor_go_def DataY_editor_go_def DataX_tabs_def DataX_tabs_scan_no_tab
          DataX_scan_eq line_at_def DeleteLine_editor_go_def Len_Max and_then_def Let_def)
  show ?thesis using a b c d f by (intro conjI)
qed

theorem Delete_joins_lines_witness:
  "Delete [] ((NewEditor True modeBlank)\<lparr>lines := [0 \<mapsto> [0x61, 0x62], 1 \<mapsto> [0x63, 0x64]],
              pos := \<lparr>sx = 2, sy = 0, offset = 0, savedX = 0\<rparr>\<rparr>)
     = Returns ((NewEditor True modeBlank)\<lparr>lines := [0 \<mapsto> [0x61, 0x62, 0x63, 0x64]],
                  pos := \<lparr>sx = 2, sy = 0, offset = 0, savedX = 0\<rparr>, changed := True\<rparr>)"
  using Delete_joins_lines [where e = "NewEditor True modeBlank" and s = 0 and spare = "[]"
      and spacesPerTab = 4]
  by simp







text \<open>
  C6. In text mode, on a row whose line has no tab, with a screen column that is not
  negative: below the line's rune length, \<open>DataX\<close> returns the screen column itself and
  no error; at or past it, \<open>DataX\<close> returns the line's rune length together with the
  "position is after data" error. The same holds for the tab-expanding \<open>DataX\<close> of
  editor.go, whatever the tab width.
\<close>

theorem DataX_no_tabs:
  assumes "\<not> drawMode e" and "0 \<le> sx (pos e)" and "0x09 \<notin> set (line_at e (DataY e))"
  shows "DataX e =
           (if sx (pos e) < int (length (line_at e (DataY e))) then (sx (pos e), None)
            else (int (length (line_at e (DataY e))), Some PositionAfterData))
         \<and> DataX_tabs spacesPerTab e = DataX e"
  using assms by (simp add: DataX_def DataX_tabs_def DataY_def DataX_scan_eq DataX_tabs_scan_no_tab)

theorem DataX_no_tabs_witness:
  "DataX ((NewEditor True modeBlank)\<lparr>lines := [0 \<mapsto> [0x61, 0x62, 0x63]],
            pos := \<lparr>sx = 1, sy = 0, offset = 0, savedX = 0\<rparr>\<rparr>) = (1, None)
   \<and> DataX ((NewEditor True modeBlank)\<lparr>lines := [0 \<mapsto> [0x61, 0x62, 0x63]],
            pos := \<lparr>sx = 5, sy = 0, offset = 0, savedX = 0\<rparr>\<rparr>) = (3, Some PositionAfterData)"
  using DataX_no_tabs [where e = "(NewEditor True modeBlank)\<lparr>lines := [0 \<mapsto> [0x61, 0x62, 0x63]],
            pos := \<lparr>sx = 1, sy = 0, offset = 0, savedX = 0\<rparr>\<rparr>" and spacesPerTab = 4]
        DataX_no_tabs [where e = "(NewEditor True modeBlank)\<lparr>lines := [0 \<mapsto> [0x61, 0x62, 0x63]],
            pos := \<lparr>sx = 5, sy = 0, offset = 0, savedX = 0\<rparr>\<rparr>" and spacesPerTab = 4]
  by (simp add: NewEditor_def DataY_def line_at_def)

text \<open>
  C7. \<open>Len\<close> should return the highest present line index plus one, and 0 for a document
  with no lines. For the document with no lines the code returns 1: the running maximum
  starts at 0 and one is added to it.
\<close>

theorem Len_no_lines:
  "Len (e\<lparr>lines := Map.empty\<rparr>) = 1"
  by (simp add: Len_def)

text \<open>
  C8. \<open>Get\<close> never fails on a column that is not negative: where line \<open>y\<close> is absent or
  \<open>x\<close> is at or past its length it returns the space rune, and otherwise the rune stored
  at column \<open>x\<close> of line \<open>y\<close>.
\<close>

theorem Get_total:
  "0 \<le> x \<Longrightarrow>
   Get x y e = Returns (case lines e y of
                          None \<Rightarrow> 0x20
                        | Some runes \<Rightarrow> if x \<ge> int (length runes) then 0x20 else runes ! nat x)"
  by (simp add: Get_def split: option.splits)

theorem Get_total_witness:
  "Get 1 0 ((NewEditor True modeBlank)\<lparr>lines := [0 \<mapsto> [0x61, 0x62]]\<rparr>) = Returns 0x62
   \<and> Get 2 0 ((NewEditor True modeBlank)\<lparr>lines := [0 \<mapsto> [0x61, 0x62]]\<rparr>) = Returns 0x20
   \<and> Get 0 7 ((NewEditor True modeBlank)\<lparr>lines := [0 \<mapsto> [0x61, 0x62]]\<rparr>) = Returns 0x20"
  using Get_total [where x = 1 and y = 0 and e = "(NewEditor True modeBlank)\<lparr>lines := [0 \<mapsto> [0x61, 0x62]]\<rparr>"]
        Get_total [where x = 2 and y = 0 and e = "(NewEditor True modeBlank)\<lparr>lines := [0 \<mapsto> [0x61, 0x62]]\<rparr>"]
        Get_total [where x = 0 and y = 7 and e = "(NewEditor True modeBlank)\<lparr>lines := [0 \<mapsto> [0x61, 0x62]]\<rparr>"]
  by simp

text \<open>
  C9. Trimming should remove the whole run of trailing white space, so that a line made of
  a single white space rune becomes a line of length 0. On the line \<open>" "\<close> the scan of
  \<open>TrimRight\<close> finds no rune that is not white space, \<open>lastIndex\<close> keeps its first
  value (the last index of the line), and the line is stored back whole, of length 1. The
  older \<open>TrimSpaceRight\<close> of editor.go does the same.
\<close>

theorem TrimRight_single_space_kept:
  "lines (TrimRight 0 (e\<lparr>lines := [0 \<mapsto> [0x20]]\<rparr>)) 0 = Some [0x20]
   \<and> lines (TrimSpaceRight 0 (e\<lparr>lines := [0 \<mapsto> [0x20]]\<rparr>)) 0 = Some [0x20]"
proof -
  have "TrimRight_scan [0x20] 0 0 = 0"
    by (simp add: TrimRight_scan.simps [of _ _ 0] TrimRight_scan.simps [of _ _ "-1"] IsSpace_def)
  moreover have "TrimSpaceRight_scan [0x20] 0 0 = 0"
    by (simp add: TrimSpaceRight_scan.simps [of _ _ 0])
  ultimately show ?thesis
    by (simp add: TrimRight_def TrimSpaceRight_def)
qed

text \<open>
  C10. For every mode other than \<open>modeGray4\<close>, \<open>WriteFavicon\<close> returns its "only
  implemented for 4-bit grayscale images" error and leaves every file as it was, whatever
  the text, the file name and \<open>asOther\<close> are.
\<close>

theorem WriteFavicon_only_gray4:
  "md \<noteq> modeGray4 \<Longrightarrow>
   WriteFavicon png_Encode EncodeGrayscale4bit fs md contents filename asOther
     = (Some OnlyGray4Implemented, fs)"
  by (simp add: WriteFavicon_def)

theorem WriteFavicon_only_gray4_witness:
  "WriteFavicon (\<lambda>m. []) (\<lambda>m. []) \<lparr>files = Map.empty, creatable = (\<lambda>n. True)\<rparr>
     modeRGB [0x5F, 0x20, 0x0A] ''icon.ico'' False
     = (Some OnlyGray4Implemented, \<lparr>files = Map.empty, creatable = (\<lambda>n. True)\<rparr>)"
  using WriteFavicon_only_gray4 [where md = modeRGB and png_Encode = "\<lambda>m. []"
      and EncodeGrayscale4bit = "\<lambda>m. []"
      and fs = "\<lparr>files = Map.empty, creatable = (\<lambda>n. True)\<rparr>"
      and contents = "[0x5F, 0x20, 0x0A]" and filename = "''icon.ico''" and asOther = False]
  by (simp add: modeRGB_def modeGray4_def)

end
